theory Spec2Isabelle
  imports Main "HOL-Library.Char_ord" "HOL-Library.List_Lexorder"
begin

section \<open>JavaScript values and exceptions\<close>

text \<open>
  The values that reach the functions below.  An object is a grip of the debugging
  protocol; it carries the two properties the renderer reads by name, \<open>class\<close> and
  \<open>value\<close> (\<open>JUndefined\<close> when the property is absent).  Numbers are integers.
\<close>

datatype jsval =
    JUndefined
  | JNull
  | JBool bool
  | JNumber int
  | JString string
  | JGrip jsval jsval

datatype error = Error string | TypeError string

fun typeof :: "jsval \<Rightarrow> string" where
  "typeof JUndefined = ''undefined''"
| "typeof JNull = ''object''"
| "typeof (JBool b) = ''boolean''"
| "typeof (JNumber n) = ''number''"
| "typeof (JString s) = ''string''"
| "typeof (JGrip c v) = ''object''"

fun truthy :: "jsval \<Rightarrow> bool" where
  "truthy JUndefined = False"
| "truthy JNull = False"
| "truthy (JBool b) = b"
| "truthy (JNumber n) = (n \<noteq> 0)"
| "truthy (JString s) = (s \<noteq> [])"
| "truthy (JGrip c v) = True"

text \<open>Decimal rendering of a natural number inside a template literal.\<close>

fun showNat :: "nat \<Rightarrow> string" where
  "showNat n = (if n < 10 then [''0123456789'' ! n]
                else showNat (n div 10) @ [''0123456789'' ! (n mod 10)])"

declare showNat.simps [simp del]

section \<open>General utilities (DevToolsUtils)\<close>

subsection \<open>safeErrorString\<close>

text \<open>
  What reading \<open>lineNumber\<close> or \<open>columnNumber\<close> gives: a number, with the string
  that a template literal prints for it (any number: an integer, a fraction, \<open>NaN\<close>),
  or a value of another type.
\<close>

datatype positionProp = NumberValue string | OtherValue

text \<open>
  What \<open>safeErrorString\<close> observes of its argument: the outcome of calling its
  \<open>toString\<close>, of reading \<open>stack\<close>, of calling \<open>stack.toString\<close>, of reading
  \<open>lineNumber\<close> and \<open>columnNumber\<close>, and of reading the tag that
  \<open>Object.prototype.toString.call\<close> prints.  Each of them may throw: a getter, a
  proxy trap, a property of \<open>null\<close>; the tag is read through \<open>Symbol.toStringTag\<close>,
  which may be a getter or sit behind a proxy as well.
\<close>

record errorLike =
  toStringResult :: "error + jsval"
  stackProp :: "error + jsval"
  stackToString :: "error + jsval"
  lineNumberProp :: "error + positionProp"
  columnNumberProp :: "error + positionProp"
  builtinTag :: "error + string"

text \<open>\<open>Object.prototype.toString.call(aError)\<close>, which stands outside every \<open>try\<close>.\<close>

definition objectProtoToString :: "errorLike \<Rightarrow> error + string" where
  "objectProtoToString aError =
     (case builtinTag aError of
        Inl e \<Rightarrow> Inl e
      | Inr tag \<Rightarrow> Inr (''[object '' @ tag @ '']''))"

text \<open>
  The inner \<open>try\<close>: attach the stack when \<open>stack.toString()\<close> is a string; on any
  exception keep the string as it was.
\<close>

definition attachStack :: "errorLike \<Rightarrow> string \<Rightarrow> string" where
  "attachStack aError errorString =
     (case stackProp aError of
        Inl ee \<Rightarrow> errorString
      | Inr st \<Rightarrow>
          if truthy st then
            (case stackToString aError of
               Inl ee \<Rightarrow> errorString
             | Inr stack \<Rightarrow>
                 (case stack of
                    JString s \<Rightarrow> errorString @ CHR 0x0A # ''Stack: '' @ s
                  | _ \<Rightarrow> errorString))
          else errorString)"

text \<open>
  The outer \<open>try\<close> body: \<open>Inr (Some s)\<close> is \<open>return s\<close>, \<open>Inr None\<close> is falling
  out of the \<open>if\<close> because \<open>toString\<close> gave no string, \<open>Inl\<close> is an exception.
\<close>

definition safeErrorString_body :: "errorLike \<Rightarrow> error + string option" where
  "safeErrorString_body aError =
     (case toStringResult aError of
        Inl ee \<Rightarrow> Inl ee
      | Inr errorString \<Rightarrow>
          (case errorString of
             JString str \<Rightarrow>
               (let s = attachStack aError str in
                case lineNumberProp aError of
                  Inl ee \<Rightarrow> Inl ee
                | Inr OtherValue \<Rightarrow> Inr (Some s)
                | Inr (NumberValue ln) \<Rightarrow>
                    (case columnNumberProp aError of
                       Inl ee \<Rightarrow> Inl ee
                     | Inr OtherValue \<Rightarrow> Inr (Some s)
                     | Inr (NumberValue col) \<Rightarrow>
                         Inr (Some (s @ ''Line: '' @ ln @ '', column: '' @ col))))
           | _ \<Rightarrow> Inr None))"

text \<open>
  The exception of the outer \<open>try\<close> is swallowed; without a returned string the
  function ends in the coercion, whose exception is the function's.
\<close>

definition safeErrorString :: "errorLike \<Rightarrow> error + string" where
  "safeErrorString aError =
     (case safeErrorString_body aError of
        Inr (Some s) \<Rightarrow> Inr s
      | Inr None \<Rightarrow> objectProtoToString aError
      | Inl ee \<Rightarrow> objectProtoToString aError)"

subsection \<open>reportException\<close>

text \<open>The console is the list of the lines logged so far.\<close>

type_synonym console = "string list"

definition reportException :: "string \<Rightarrow> errorLike \<Rightarrow> console \<Rightarrow> (error + unit) \<times> console" where
  "reportException aWho aException log =
     (case safeErrorString aException of
        Inl e \<Rightarrow> (Inl e, log)
      | Inr s \<Rightarrow> (Inr (), log @ [aWho @ '' threw an exception: '' @ s]))"

subsection \<open>makeInfallible\<close>

text \<open>
  A handler is a function with a name.  The wrapper returned by \<open>makeInfallible\<close>
  applies the handler; the \<open>try\<close> and \<open>catch\<close> around the call are commented out in
  the source, so nothing is caught and nothing is logged.
\<close>

record ('a, 'b) handler =
  handlerName :: string
  handlerApply :: "'a \<Rightarrow> error + 'b"

definition makeInfallible ::
  "('a, 'b) handler \<Rightarrow> string option \<Rightarrow> 'a \<Rightarrow> console \<Rightarrow> (error + 'b) \<times> console" where
  "makeInfallible aHandler aName =
     (let aName' = (case aName of None \<Rightarrow> handlerName aHandler
                    | Some n \<Rightarrow> if n = [] then handlerName aHandler else n)
      in (\<lambda>arguments log. (handlerApply aHandler arguments, log)))"

subsection \<open>assert\<close>

text \<open>
  What the engine puts on a fresh \<open>Error\<close> object besides the message: a \<open>stack\<close>
  string or none, and its \<open>lineNumber\<close> and \<open>columnNumber\<close> properties (a number
  where the engine sets one).  An \<open>Error\<close> has the builtin tag \<open>Error\<close>.
\<close>

record engine =
  errorStack :: "string option"
  errorLineNumber :: positionProp
  errorColumnNumber :: positionProp

definition newError :: "engine \<Rightarrow> string \<Rightarrow> errorLike" where
  "newError eng message =
     \<lparr> toStringResult = Inr (JString (if message = [] then ''Error'' else ''Error: '' @ message)),
       stackProp = Inr (case errorStack eng of None \<Rightarrow> JUndefined | Some s \<Rightarrow> JString s),
       stackToString =
         (case errorStack eng of
            None \<Rightarrow> Inl (TypeError ''undefined has no properties'')
          | Some s \<Rightarrow> Inr (JString s)),
       lineNumberProp = Inr (errorLineNumber eng),
       columnNumberProp = Inr (errorColumnNumber eng),
       builtinTag = Inr ''Error'' \<rparr>"

definition noop :: "jsval \<Rightarrow> string \<Rightarrow> console \<Rightarrow> (error + jsval) \<times> console" where
  "noop condition message log = (Inr JUndefined, log)"

definition reallyAssert :: "engine \<Rightarrow> jsval \<Rightarrow> string \<Rightarrow> console \<Rightarrow> (error + jsval) \<times> console" where
  "reallyAssert eng condition message log =
     (if \<not> truthy condition then
        (let msg = ''Assertion failure: '' @ message in
         case reportException ''DevToolsUtils.assert'' (newError eng msg) log of
           (Inl e, log') \<Rightarrow> (Inl e, log')
         | (Inr u, log') \<Rightarrow> (Inl (Error msg), log'))
      else (Inr JUndefined, log))"

text \<open>The constants of \<open>AppConstants\<close> the getter reads, and the module's testing flag.\<close>

record appConstants =
  DEBUG :: bool
  DEBUG_JS_MODULES :: bool

definition assert ::
  "appConstants \<Rightarrow> bool \<Rightarrow> engine \<Rightarrow> jsval \<Rightarrow> string \<Rightarrow> console \<Rightarrow> (error + jsval) \<times> console" where
  "assert consts testing eng =
     (if DEBUG consts \<or> DEBUG_JS_MODULES consts \<or> testing then reallyAssert eng else noop)"

text \<open>
  An error object with a stack, a line and a column, and an object whose \<open>toString\<close>
  throws and whose \<open>Symbol.toStringTag\<close> getter throws too.
\<close>

definition locatedError :: errorLike where
  "locatedError =
     \<lparr> toStringResult = Inr (JString ''Error: boom''), stackProp = Inr (JString ''f@a.js:3:4''),
       stackToString = Inr (JString ''f@a.js:3:4''), lineNumberProp = Inr (NumberValue ''3''),
       columnNumberProp = Inr (NumberValue ''4''), builtinTag = Inr ''Error'' \<rparr>"

definition hostileObject :: errorLike where
  "hostileObject =
     \<lparr> toStringResult = Inl (Error ''toString''), stackProp = Inr JUndefined,
       stackToString = Inl (TypeError ''undefined has no properties''),
       lineNumberProp = Inr OtherValue, columnNumberProp = Inr OtherValue,
       builtinTag = Inl (Error ''toStringTag'') \<rparr>"

subsection \<open>settleAll\<close>

text \<open>
  An element of the iterable is either a thenable (\<open>value && typeof value.then ==
  "function"\<close>), on which \<open>settleAll\<close> registers its two callbacks, or any other
  value, which it hands to \<open>resolver\<close> at once.  The argument itself is \<open>null\<close>,
  \<open>undefined\<close>, a value with no \<open>Symbol.iterator\<close> method, or an iterable, given by
  its elements in order.
\<close>

datatype 'v settleInput = Plain 'v | Thenable

datatype 'v settleArg = ArgNull | ArgUndefined | ArgNotIterable | ArgIterable "'v settleInput list"

text \<open>
  The closure of one call: the counter, the array of resolution values (\<open>None\<close> is
  a slot not written yet), the first rejection reason, and the deferred whose promise
  is returned.  A deferred that is resolved is resolved with the array
  \<open>resolutionValues\<close> itself; resolving or rejecting a settled deferred does nothing.
  A callback writes at the index of its own input, which lies inside the array.
\<close>

datatype 'e deferredState = Pending | Resolved | Rejected "'e option"

record ('v, 'e) settleState =
  countdown :: int
  resolutionValues :: "'v option list"
  rejectionValue :: "'e option"
  rejectionOccurred :: bool
  deferred :: "'e deferredState"

definition deferredResolve :: "('v, 'e) settleState \<Rightarrow> ('v, 'e) settleState" where
  "deferredResolve st = (if deferred st = Pending then st\<lparr>deferred := Resolved\<rparr> else st)"

definition deferredReject :: "'e option \<Rightarrow> ('v, 'e) settleState \<Rightarrow> ('v, 'e) settleState" where
  "deferredReject reason st =
     (if deferred st = Pending then st\<lparr>deferred := Rejected reason\<rparr> else st)"

definition checkForCompletion :: "('v, 'e) settleState \<Rightarrow> ('v, 'e) settleState" where
  "checkForCompletion st =
     (let st1 = st\<lparr>countdown := countdown st - 1\<rparr> in
      if countdown st1 > 0 then st1
      else if \<not> rejectionOccurred st1 then deferredResolve st1
      else deferredReject (rejectionValue st1) st1)"

definition resolver :: "nat \<Rightarrow> 'v \<Rightarrow> ('v, 'e) settleState \<Rightarrow> ('v, 'e) settleState" where
  "resolver index result st =
     checkForCompletion (st\<lparr>resolutionValues := (resolutionValues st)[index := Some result]\<rparr>)"

definition rejecter :: "'e \<Rightarrow> ('v, 'e) settleState \<Rightarrow> ('v, 'e) settleState" where
  "rejecter err st =
     checkForCompletion
       (if \<not> rejectionOccurred st
        then st\<lparr>rejectionValue := Some err, rejectionOccurred := True\<rparr>
        else st)"

fun settleLoop :: "'v settleInput list \<Rightarrow> nat \<Rightarrow> ('v, 'e) settleState \<Rightarrow> ('v, 'e) settleState" where
  "settleLoop [] i st = st"
| "settleLoop (Plain v # values) i st = settleLoop values (i + 1) (resolver i v st)"
| "settleLoop (Thenable # values) i st = settleLoop values (i + 1) st"

definition settleInit :: "nat \<Rightarrow> ('v, 'e) settleState" where
  "settleInit n =
     \<lparr> countdown = int n, resolutionValues = replicate n None, rejectionValue = None,
       rejectionOccurred = False, deferred = Pending \<rparr>"

definition settleAll :: "'v settleArg \<Rightarrow> error + ('v, 'e) settleState" where
  "settleAll arg =
     (case arg of
        ArgNull \<Rightarrow> Inl (Error ''settleAll() expects an iterable.'')
      | ArgUndefined \<Rightarrow> Inl (TypeError ''values is undefined'')
      | ArgNotIterable \<Rightarrow> Inl (Error ''settleAll() expects an iterable.'')
      | ArgIterable values \<Rightarrow>
          (let st = settleInit (length values) in
           if countdown st = 0 then Inr (deferredResolve st)
           else Inr (settleLoop values 0 st)))"

text \<open>
  After the synchronous part the thenables settle, one callback each, in some order:
  thenable \<open>i\<close> is fulfilled with a value (its \<open>resolver\<close> runs) or rejected with
  a reason (its \<open>rejecter\<close> runs).
\<close>

datatype ('v, 'e) settlement = Fulfilled nat 'v | RejectedWith nat 'e

fun settle :: "('v, 'e) settlement \<Rightarrow> ('v, 'e) settleState \<Rightarrow> ('v, 'e) settleState" where
  "settle (Fulfilled i v) st = resolver i v st"
| "settle (RejectedWith i e) st = rejecter e st"

definition settleMany :: "('v, 'e) settlement list \<Rightarrow> ('v, 'e) settleState \<Rightarrow> ('v, 'e) settleState" where
  "settleMany evs st = fold settle evs st"

definition outcome :: "('v, 'e) settleState \<Rightarrow> ('e option + 'v option list) option" where
  "outcome st =
     (case deferred st of
        Pending \<Rightarrow> None
      | Resolved \<Rightarrow> Some (Inr (resolutionValues st))
      | Rejected reason \<Rightarrow> Some (Inl reason))"

text \<open>
  A schedule is well formed when every callback belongs to a thenable of the input and
  no thenable settles twice, as promises guarantee.  All inputs have settled when every
  thenable of the input occurs in the schedule.
\<close>

fun settledIndex :: "('v, 'e) settlement \<Rightarrow> nat" where
  "settledIndex (Fulfilled i v) = i"
| "settledIndex (RejectedWith i e) = i"

definition wellFormed :: "'v settleInput list \<Rightarrow> ('v, 'e) settlement list \<Rightarrow> bool" where
  "wellFormed values evs =
     (distinct (map settledIndex evs)
      \<and> list_all (\<lambda>ev. settledIndex ev < length values \<and> values ! settledIndex ev = Thenable) evs)"

definition allSettled :: "'v settleInput list \<Rightarrow> ('v, 'e) settlement list \<Rightarrow> bool" where
  "allSettled values evs =
     list_all (\<lambda>i. values ! i \<noteq> Thenable \<or> i \<in> set (map settledIndex evs)) [0..<length values]"

text \<open>
  The value a schedule fulfils thenable \<open>i\<close> with, the reason of the first rejection
  in a schedule, and the array expected on success: at each position the element itself
  when it is not a thenable, the value its thenable was fulfilled with otherwise.
\<close>

fun fulfilment :: "nat \<Rightarrow> ('v, 'e) settlement list \<Rightarrow> 'v option" where
  "fulfilment i [] = None"
| "fulfilment i (Fulfilled j v # evs) = (if i = j then Some v else fulfilment i evs)"
| "fulfilment i (RejectedWith j e # evs) = fulfilment i evs"

fun firstRejection :: "('v, 'e) settlement list \<Rightarrow> 'e option" where
  "firstRejection [] = None"
| "firstRejection (Fulfilled j v # evs) = firstRejection evs"
| "firstRejection (RejectedWith j e # evs) = Some e"

definition expectedValues :: "'v settleInput list \<Rightarrow> ('v, 'e) settlement list \<Rightarrow> 'v option list" where
  "expectedValues values evs =
     map (\<lambda>i. case values ! i of Plain v \<Rightarrow> Some v | Thenable \<Rightarrow> fulfilment i evs)
       [0..<length values]"


text \<open>
  The calls of \<open>resolver\<close> that the loop makes itself, as callbacks, and the state
  reached from the initial one after a sequence of callbacks.
\<close>

fun plainCallbacks :: "nat \<Rightarrow> 'v settleInput list \<Rightarrow> ('v, 'e) settlement list" where
  "plainCallbacks i [] = []"
| "plainCallbacks i (Plain v # values) = Fulfilled i v # plainCallbacks (i + 1) values"
| "plainCallbacks i (Thenable # values) = plainCallbacks (i + 1) values"

definition settledAs :: "nat \<Rightarrow> ('v, 'e) settlement list \<Rightarrow> ('v, 'e) settleState \<Rightarrow> bool" where
  "settledAs n cbs st =
     (countdown st = int n - int (length cbs)
      \<and> length (resolutionValues st) = n
      \<and> (\<forall>i<n. resolutionValues st ! i = fulfilment i cbs)
      \<and> rejectionValue st = firstRejection cbs
      \<and> rejectionOccurred st = (firstRejection cbs \<noteq> None)
      \<and> deferred st = (if length cbs < n then Pending
                       else if firstRejection cbs \<noteq> None then Rejected (firstRejection cbs)
                       else Resolved))"

section \<open>The map renderer (reps/grip-map.js)\<close>

text \<open>
  Property reads.  \<open>null\<close> and \<open>undefined\<close> have no properties: reading one
  throws a TypeError.  A grip has \<open>class\<close> and \<open>value\<close>; a string has \<open>length\<close>;
  every other property of every other value is \<open>undefined\<close>.
\<close>

definition getClass :: "jsval \<Rightarrow> error + jsval" where
  "getClass v =
     (case v of
        JUndefined \<Rightarrow> Inl (TypeError ''undefined has no properties'')
      | JNull \<Rightarrow> Inl (TypeError ''null has no properties'')
      | JGrip c x \<Rightarrow> Inr c
      | _ \<Rightarrow> Inr JUndefined)"

definition getValue :: "jsval \<Rightarrow> error + jsval" where
  "getValue v =
     (case v of
        JUndefined \<Rightarrow> Inl (TypeError ''undefined has no properties'')
      | JNull \<Rightarrow> Inl (TypeError ''null has no properties'')
      | JGrip c x \<Rightarrow> Inr x
      | _ \<Rightarrow> Inr JUndefined)"

text \<open>The \<open>length\<close> property: a number on a string, \<open>undefined\<close> (\<open>None\<close>) elsewhere.\<close>

definition getLength :: "jsval \<Rightarrow> error + int option" where
  "getLength v =
     (case v of
        JUndefined \<Rightarrow> Inl (TypeError ''undefined has no properties'')
      | JNull \<Rightarrow> Inl (TypeError ''null has no properties'')
      | JString s \<Rightarrow> Inr (Some (int (length s)))
      | _ \<Rightarrow> Inr None)"

text \<open>\<open>x != 0\<close> for a length: \<open>undefined != 0\<close> holds.\<close>

definition notEqualZero :: "int option \<Rightarrow> bool" where
  "notEqualZero len = (case len of None \<Rightarrow> True | Some n \<Rightarrow> n \<noteq> 0)"

text \<open>\<open>toLowerCase\<close> is a method of strings only; letters are ASCII.\<close>

definition lowerChar :: "char \<Rightarrow> char" where
  "lowerChar c =
     (if CHR ''A'' \<le> c \<and> c \<le> CHR ''Z'' then char_of (of_char c + (32 :: nat)) else c)"

definition toLowerCase :: "jsval \<Rightarrow> error + string" where
  "toLowerCase v =
     (case v of
        JString s \<Rightarrow> Inr (map lowerChar s)
      | _ \<Rightarrow> Inl (TypeError ''toLowerCase is not a function''))"

text \<open>
  An entry filter takes the type, the value and the key of an entry; a filter passed in
  the props may throw, and what it returns is read as a boolean.
\<close>

type_synonym entryFilter = "string \<Rightarrow> jsval \<Rightarrow> jsval \<Rightarrow> error + bool"

text \<open>The filter \<open>entriesIterator\<close> uses when the props give none.\<close>

definition defaultIsInterestingEntry :: entryFilter where
  "defaultIsInterestingEntry type val name =
     (if type = ''boolean'' \<or> type = ''number'' then Inr True
      else if type = ''string'' then
        (case getLength val of Inl e \<Rightarrow> Inl e | Inr len \<Rightarrow> Inr (notEqualZero len))
      else Inr False)"

text \<open>
  The variables \<open>max\<close> and \<open>filter\<close> of the source are \<open>maxN\<close> and \<open>filterFn\<close>
  here.  The grip given to the component: \<open>None\<close> is \<open>null\<close> or \<open>undefined\<close>; its
  \<open>preview\<close> and the preview's \<open>entries\<close> may be missing.  An entry is a pair of a
  key and a value.
\<close>

type_synonym mapEntry = "jsval \<times> jsval"

record gripPreview =
  previewKind :: string
  previewEntries :: "mapEntry list option"

record mapGrip =
  gripClass :: "string option"
  gripPreview :: "gripPreview option"

record gripMapProps =
  isInterestingEntry :: "entryFilter option"
  hasObjectLink :: bool

text \<open>
  What the component renders: a \<open>PropRep\<close> with the props \<open>name\<close>, \<open>object\<close> and
  \<open>delim\<close>, and the caption whose text is the given number followed by \<open>more\<close> and
  an ellipsis.
\<close>

datatype element = PropRep jsval jsval string | Caption int

text \<open>
  The body of the reducer in \<open>getEntriesIndexes\<close> up to the call of the filter
  (lines 146 to 151): the value of the entry, its type, the filter's verdict.
\<close>

definition entryValue :: "jsval \<Rightarrow> error + jsval" where
  "entryValue entry =
     (if truthy entry then
        (case getValue entry of
           Inl e \<Rightarrow> Inl e
         | Inr v \<Rightarrow> Inr (if v \<noteq> JUndefined then v else entry))
      else Inr entry)"

definition entryType :: "jsval \<Rightarrow> error + string" where
  "entryType val =
     (if truthy val then
        (case getClass val of
           Inl e \<Rightarrow> Inl e
         | Inr c \<Rightarrow> if truthy c then toLowerCase c else toLowerCase (JString (typeof val)))
      else toLowerCase (JString (typeof val)))"

definition applyFilter :: "entryFilter \<Rightarrow> mapEntry \<Rightarrow> error + bool" where
  "applyFilter filterFn ke =
     (case entryValue (snd ke) of
        Inl e \<Rightarrow> Inl e
      | Inr val \<Rightarrow>
          (case entryType val of
             Inl e \<Rightarrow> Inl e
           | Inr type \<Rightarrow> filterFn type val (fst ke)))"

fun reduceIndexes ::
  "entryFilter \<Rightarrow> nat \<Rightarrow> mapEntry list \<Rightarrow> nat \<Rightarrow> nat list \<Rightarrow> error + nat list" where
  "reduceIndexes filterFn maxN [] i indexes = Inr indexes"
| "reduceIndexes filterFn maxN (ke # entries) i indexes =
     (if length indexes < maxN then
        (case applyFilter filterFn ke of
           Inl e \<Rightarrow> Inl e
         | Inr b \<Rightarrow> reduceIndexes filterFn maxN entries (i + 1) (if b then indexes @ [i] else indexes))
      else reduceIndexes filterFn maxN entries (i + 1) indexes)"

definition getEntriesIndexes :: "mapEntry list \<Rightarrow> nat \<Rightarrow> entryFilter \<Rightarrow> error + nat list" where
  "getEntriesIndexes entries maxN filterFn = reduceIndexes filterFn maxN entries 0 []"

text \<open>
  \<open>getEntries\<close>: the indexes are sorted ascending, then mapped.  The value shown is
  read without the guard of \<open>getEntriesIndexes\<close>, so an entry whose value is \<open>null\<close>
  or \<open>undefined\<close> throws here.
\<close>

definition shownValue :: "jsval \<Rightarrow> error + jsval" where
  "shownValue entryVal =
     (case getValue entryVal of
        Inl e \<Rightarrow> Inl e
      | Inr v \<Rightarrow> Inr (if v \<noteq> JUndefined then v else entryVal))"

fun mapIndexes :: "mapEntry list \<Rightarrow> nat \<Rightarrow> nat \<Rightarrow> nat list \<Rightarrow> error + element list" where
  "mapIndexes entries len i [] = Inr []"
| "mapIndexes entries len i (index # indexes) =
     (if index < length entries then
        (case shownValue (snd (entries ! index)) of
           Inl e \<Rightarrow> Inl e
         | Inr val \<Rightarrow>
             (case mapIndexes entries len (i + 1) indexes of
                Inl e \<Rightarrow> Inl e
              | Inr rest \<Rightarrow>
                  Inr (PropRep (fst (entries ! index)) val
                         (if int i < int len - 1 \<or> len < length entries then '', '' else [])
                       # rest)))
      else Inl (TypeError ''undefined is not iterable''))"

definition getEntries :: "mapEntry list \<Rightarrow> nat list \<Rightarrow> error + element list" where
  "getEntries entries indexes =
     (let sortedIndexes = sort indexes in mapIndexes entries (length sortedIndexes) 0 sortedIndexes)"

definition negateFilter :: "entryFilter \<Rightarrow> entryFilter" where
  "negateFilter filterFn t val name =
     (case filterFn t val name of Inl e \<Rightarrow> Inl e | Inr b \<Rightarrow> Inr (\<not> b))"

definition filterOf :: "gripMapProps \<Rightarrow> entryFilter" where
  "filterOf props =
     (case isInterestingEntry props of None \<Rightarrow> defaultIsInterestingEntry | Some f \<Rightarrow> f)"

definition mapEntriesOf :: "mapGrip \<Rightarrow> mapEntry list" where
  "mapEntriesOf object =
     (case gripPreview object of
        None \<Rightarrow> []
      | Some p \<Rightarrow> (case previewEntries p of None \<Rightarrow> [] | Some es \<Rightarrow> es))"

definition selectIndexes :: "entryFilter \<Rightarrow> mapEntry list \<Rightarrow> nat \<Rightarrow> error + nat list" where
  "selectIndexes filterFn mapEntries maxN =
     (case getEntriesIndexes mapEntries maxN filterFn of
        Inl e \<Rightarrow> Inl e
      | Inr indexes \<Rightarrow>
          if length indexes < maxN \<and> length indexes < length mapEntries then
            (case getEntriesIndexes mapEntries (maxN - length indexes) (negateFilter filterFn) of
               Inl e \<Rightarrow> Inl e
             | Inr others \<Rightarrow> Inr (indexes @ others))
          else Inr indexes)"

definition entriesIterator ::
  "gripMapProps \<Rightarrow> mapGrip option \<Rightarrow> nat \<Rightarrow> error + element list" where
  "entriesIterator props object maxN =
     (case object of
        None \<Rightarrow> Inl (TypeError ''object is undefined'')
      | Some obj \<Rightarrow>
          (let mapEntries = mapEntriesOf obj in
           case selectIndexes (filterOf props) mapEntries maxN of
             Inl e \<Rightarrow> Inl e
           | Inr indexes \<Rightarrow>
               (case getEntries mapEntries indexes of
                  Inl e \<Rightarrow> Inl e
                | Inr entries \<Rightarrow>
                    if length entries < length mapEntries
                    then Inr (entries @ [Caption (int (length mapEntries) - int maxN)])
                    else Inr entries)))"

text \<open>
  \<open>safeEntriesIterator\<close>: \<open>max\<close> defaults to 3; an exception of \<open>entriesIterator\<close> is
  caught, written to the console with \<open>console.error\<close>, and the empty array returned.
\<close>

definition safeEntriesIterator ::
  "gripMapProps \<Rightarrow> mapGrip option \<Rightarrow> nat option \<Rightarrow> error list
     \<Rightarrow> (error + element list) \<times> error list" where
  "safeEntriesIterator props object maxArg errors =
     (let maxN = (case maxArg of None \<Rightarrow> 3 | Some m \<Rightarrow> m) in
      case entriesIterator props object maxN of
        Inr entries \<Rightarrow> (Inr entries, errors)
      | Inl err \<Rightarrow> (Inr [], errors @ [err]))"

text \<open>
  For the statements: the entries a rendered list shows, the name and value shown for
  an entry, the entries of a grip (none when there is no grip), whether the filter
  accepts an entry, and the indexes of the entries it accepts and of the others.
\<close>

fun shownEntries :: "element list \<Rightarrow> (jsval \<times> jsval) list" where
  "shownEntries [] = []"
| "shownEntries (PropRep name obj delim # els) = (name, obj) # shownEntries els"
| "shownEntries (Caption n # els) = shownEntries els"

definition interesting :: "entryFilter \<Rightarrow> mapEntry \<Rightarrow> bool" where
  "interesting filterFn ke = (applyFilter filterFn ke = Inr True)"

definition interestingIndexes :: "entryFilter \<Rightarrow> mapEntry list \<Rightarrow> nat list" where
  "interestingIndexes filterFn es = filter (\<lambda>i. interesting filterFn (es ! i)) [0..<length es]"

definition otherIndexes :: "entryFilter \<Rightarrow> mapEntry list \<Rightarrow> nat list" where
  "otherIndexes filterFn es = filter (\<lambda>i. \<not> interesting filterFn (es ! i)) [0..<length es]"

definition shownEntry :: "mapEntry \<Rightarrow> jsval \<times> jsval" where
  "shownEntry ke =
     (fst ke, case snd ke of JGrip c v \<Rightarrow> (if v \<noteq> JUndefined then v else snd ke) | x \<Rightarrow> x)"

definition entriesOf :: "mapGrip option \<Rightarrow> mapEntry list" where
  "entriesOf object = (case object of None \<Rightarrow> [] | Some obj \<Rightarrow> mapEntriesOf obj)"

text \<open>
  A component without props, a map of five entries of which the second, third and
  fourth are interesting, a map whose only entry has the value \<open>null\<close>, and a map
  with an entry of value \<open>null\<close> before an entry of value 1.
\<close>

definition defaultProps :: gripMapProps where
  "defaultProps = \<lparr> isInterestingEntry = None, hasObjectLink = False \<rparr>"

definition sampleMap :: mapGrip where
  "sampleMap =
     \<lparr> gripClass = Some ''Map'',
       gripPreview = Some \<lparr> previewKind = ''MapLike'',
         previewEntries = Some
           [(JString ''a'', JString []), (JString ''b'', JBool True),
            (JString ''c'', JGrip JUndefined (JNumber 1)), (JString ''d'', JString ''x''),
            (JString ''e'', JGrip (JString ''Object'') JUndefined)] \<rparr> \<rparr>"

definition nullValueMap :: mapGrip where
  "nullValueMap =
     \<lparr> gripClass = Some ''Map'',
       gripPreview = Some \<lparr> previewKind = ''MapLike'',
         previewEntries = Some [(JString ''a'', JNull)] \<rparr> \<rparr>"


section \<open>The property tree (makeNodesForProperties, isDefault)\<close>

text \<open>
  The test file of the property tree requires \<open>makeNodesForProperties\<close> and
  \<open>isDefault\<close> from the module \<open>utils\<close>, which is not among the sources.  Both
  are modelled from sections 4.2 and 8 of the specification, and the model returns the
  names and paths that the tests expect.  The set of default window properties is a
  parameter, as the specification leaves its members to the host.
\<close>

text \<open>
  A property descriptor with the fields the tests use, the properties of an object as
  the protocol returns them (own properties in the order of \<open>Object.keys\<close>, and the
  prototype when there is one), and a tree node: name, path and contents, where the
  contents are a descriptor, a value, or the child nodes of a synthetic node.
\<close>

record descriptor =
  descValue :: "jsval option"
  descGet :: "jsval option"
  descSet :: "jsval option"

record objectProperties =
  ownProperties :: "(string \<times> descriptor) list"
  prototype :: "jsval option"

datatype node = Node string string contents
  and contents = PropertyContents descriptor | ValueContents jsval | NodeContents "node list"

fun nodeName :: "node \<Rightarrow> string" where
  "nodeName (Node name path c) = name"

fun nodePath :: "node \<Rightarrow> string" where
  "nodePath (Node name path c) = path"

fun nodeContents :: "node \<Rightarrow> contents" where
  "nodeContents (Node name path c) = c"

fun childNodes :: "node \<Rightarrow> node list" where
  "childNodes (Node name path (NodeContents ns)) = ns"
| "childNodes (Node name path c) = []"

fun isPropertyNode :: "node \<Rightarrow> bool" where
  "isPropertyNode (Node name path (PropertyContents d)) = True"
| "isPropertyNode (Node name path c) = False"

text \<open>The class of the value a node holds; a node without a value has none.\<close>

definition valueClass :: "node \<Rightarrow> jsval" where
  "valueClass n =
     (case nodeContents n of
        ValueContents (JGrip c v) \<Rightarrow> c
      | _ \<Rightarrow> JUndefined)"

definition isWindow :: "node \<Rightarrow> bool" where
  "isWindow n = (valueClass n = JString ''Window'')"

definition nodeIsArray :: "jsval option \<Rightarrow> bool" where
  "nodeIsArray proto =
     (case proto of Some (JGrip c v) \<Rightarrow> c = JString ''Array'' | _ \<Rightarrow> False)"

text \<open>
  Numeric-looking keys are the keys made of one or more decimal digits and nothing
  else; their value is the number they spell.
\<close>

definition isDigit :: "char \<Rightarrow> bool" where
  "isDigit c = (CHR ''0'' \<le> c \<and> c \<le> CHR ''9'')"

definition isNumericKey :: "string \<Rightarrow> bool" where
  "isNumericKey k = (k \<noteq> [] \<and> list_all isDigit k)"

definition numericValue :: "string \<Rightarrow> nat" where
  "numericValue k = foldl (\<lambda>a c. 10 * a + (of_char c - 48)) 0 k"

text \<open>
  Modelled from the spec: the key order of \<open>makeNodesForProperties\<close> (module
  \<open>utils\<close>, not among the sources).  Numeric-looking keys sort numerically ascending
  before the other keys, which sort in the lexicographic order of their characters.
  The empty key comes before them all: the specification does not mention it, and the
  test \<open>quotes property names\<close> expects it in front of the key 332217.
\<close>

definition sortProperties :: "(string \<times> 'd) list \<Rightarrow> (string \<times> 'd) list" where
  "sortProperties ps =
     filter (\<lambda>p. fst p = []) ps
     @ sort_key (\<lambda>p. numericValue (fst p)) (filter (\<lambda>p. isNumericKey (fst p)) ps)
     @ sort_key fst (filter (\<lambda>p. fst p \<noteq> [] \<and> \<not> isNumericKey (fst p)) ps)"

text \<open>
  Modelled from the spec: the quoting of property names (module \<open>utils\<close>, not among
  the sources).  A key that is not a word of letters, digits and underscores is shown
  in quotes; the path keeps the key as it is.
\<close>

definition isWordChar :: "char \<Rightarrow> bool" where
  "isWordChar c =
     (isDigit c \<or> (CHR ''a'' \<le> c \<and> c \<le> CHR ''z'') \<or> (CHR ''A'' \<le> c \<and> c \<le> CHR ''Z'')
      \<or> c = CHR ''_'')"

definition maybeEscapePropertyName :: "string \<Rightarrow> string" where
  "maybeEscapePropertyName name =
     (if name \<noteq> [] \<and> list_all isWordChar name then name
      else CHR 0x22 # name @ [CHR 0x22])"

text \<open>
  Modelled from the spec: the nodes of own properties (module \<open>utils\<close>, not among the
  sources).  A property is shown when its descriptor has a value, a getter or a setter,
  as the tests expect; its node has the path \<open>parent/key\<close>.
\<close>

definition isDisplayed :: "string \<times> descriptor \<Rightarrow> bool" where
  "isDisplayed p =
     (descValue (snd p) \<noteq> None \<or> descGet (snd p) \<noteq> None \<or> descSet (snd p) \<noteq> None)"

definition propertyNode :: "string \<Rightarrow> string \<times> descriptor \<Rightarrow> node" where
  "propertyNode parentPath p =
     Node (maybeEscapePropertyName (fst p)) (parentPath @ ''/'' @ fst p) (PropertyContents (snd p))"

definition makeNodesForOwnProps :: "(string \<times> descriptor) list \<Rightarrow> string \<Rightarrow> node list" where
  "makeNodesForOwnProps props parentPath = map (propertyNode parentPath) props"

text \<open>
  Modelled from the spec: the numeric buckets of \<open>makeNodesForProperties\<close> (module
  \<open>utils\<close>, not among the sources).  Buckets of \<open>bucketSize\<close> consecutive
  properties, the last one with what is left; bucket \<open>i\<close> (from 1) has the path
  \<open>parent/bucket\<close>\<open>i\<close> and is named after the range of its positions, with the
  upper end that the test expects.
\<close>

definition bucketSize :: nat where
  "bucketSize = 100"

definition numericalBucket :: "(string \<times> descriptor) list \<Rightarrow> nat \<Rightarrow> string \<Rightarrow> nat \<Rightarrow> node" where
  "numericalBucket props bsize parentPath i =
     (let bucketKey = ''bucket'' @ showNat i;
          minKey = (i - 1) * bsize;
          maxKey = min (i * bsize - 1) (length props)
      in Node (''['' @ showNat minKey @ ''..'' @ showNat maxKey @ '']'')
              (parentPath @ ''/'' @ bucketKey)
              (NodeContents
                 (makeNodesForOwnProps (take bsize (drop minKey props))
                    (parentPath @ ''/'' @ bucketKey))))"

definition makeNumericalBuckets :: "(string \<times> descriptor) list \<Rightarrow> nat \<Rightarrow> string \<Rightarrow> node list" where
  "makeNumericalBuckets props bsize parentPath =
     map (numericalBucket props bsize parentPath) [1..<Suc ((length props + bsize - 1) div bsize)]"

text \<open>
  Modelled from the spec: \<open>isDefault\<close> (module \<open>utils\<close>, not among the sources).
  The item's name is in the set of default properties and the root's value has the
  class \<open>Window\<close>.
\<close>

definition isDefault :: "string list \<Rightarrow> string \<Rightarrow> node list \<Rightarrow> bool" where
  "isDefault windowProperties name roots =
     (case roots of
        [] \<Rightarrow> False
      | root # others \<Rightarrow> isWindow root \<and> name \<in> set windowProperties)"

text \<open>
  Modelled from the spec: the default properties of a window root (module \<open>utils\<close>,
  not among the sources).  They are left out of the list and become the children of
  one node \<open>[default properties]\<close>.
\<close>

definition makeDefaultPropsBucket ::
  "string list \<Rightarrow> (string \<times> descriptor) list \<Rightarrow> node \<Rightarrow> node list" where
  "makeDefaultPropsBucket windowProperties props parent =
     (let parentPath = nodePath parent;
          userProps = filter (\<lambda>p. \<not> isDefault windowProperties (fst p) [parent]) props;
          defaultProps = filter (\<lambda>p. isDefault windowProperties (fst p) [parent]) props
      in makeNodesForOwnProps userProps parentPath
         @ (if defaultProps \<noteq> [] then
              [Node ''[default properties]'' (parentPath @ ''/##-default'')
                 (NodeContents (makeNodesForOwnProps defaultProps (parentPath @ ''/##-default'')))]
            else []))"

text \<open>
  Modelled from the spec: \<open>makeNodesForProperties\<close> (module \<open>utils\<close>, not among the
  sources).  The shown own properties are sorted; an array with more than
  \<open>bucketSize\<close> of them is bucketed, any other object has them listed, with the
  default properties of a window root set apart; the \<open>__proto__\<close> node of an object
  that has a prototype comes last.
\<close>

definition prototypeNode :: "string \<Rightarrow> jsval \<Rightarrow> node" where
  "prototypeNode parentPath proto =
     Node ''__proto__'' (parentPath @ ''/__proto__'') (ValueContents proto)"

definition makeNodesForProperties :: "string list \<Rightarrow> objectProperties \<Rightarrow> node \<Rightarrow> node list" where
  "makeNodesForProperties windowProperties objProps parent =
     (let parentPath = nodePath parent;
          properties = sortProperties (filter isDisplayed (ownProperties objProps));
          nodes =
            (if nodeIsArray (prototype objProps) \<and> length properties > bucketSize
             then makeNumericalBuckets properties bucketSize parentPath
             else makeDefaultPropsBucket windowProperties properties parent)
      in nodes @ (case prototype objProps of
                    None \<Rightarrow> []
                  | Some proto \<Rightarrow> [prototypeNode parentPath proto]))"

text \<open>The inputs of the tests of the test file.\<close>

definition root :: node where
  "root = Node [] ''root'' (ValueContents (JGrip JUndefined JUndefined))"

definition windowRoot :: node where
  "windowRoot = Node [] ''root'' (ValueContents (JGrip (JString ''Window'') JUndefined))"

definition objectRoot :: node where
  "objectRoot = Node [] [] (ValueContents (JGrip (JString ''Object'') JUndefined))"

definition valueDesc :: descriptor where
  "valueDesc = \<lparr> descValue = Some (JGrip JUndefined JUndefined), descGet = None, descSet = None \<rparr>"

definition emptyDesc :: descriptor where
  "emptyDesc = \<lparr> descValue = None, descGet = None, descSet = None \<rparr>"

definition protoOfClass :: "string \<Rightarrow> jsval option" where
  "protoOfClass c = Some (JGrip (JString c) JUndefined)"

definition kitchenSink :: objectProperties where
  "kitchenSink =
     \<lparr> ownProperties = [(''0'', valueDesc), (''2'', emptyDesc), (''length'', valueDesc)],
       prototype = protoOfClass ''bla'' \<rparr>"

definition accessorDesc :: descriptor where
  "accessorDesc =
     \<lparr> descValue = None, descGet = Some (JGrip (JString ''Function'') JUndefined),
       descSet = Some (JGrip JUndefined JUndefined) \<rparr>"

definition accessors :: objectProperties where
  "accessors =
     \<lparr> ownProperties = [(''foo'', valueDesc), (''bar'', accessorDesc), (''baz'', accessorDesc)],
       prototype = protoOfClass ''bla'' \<rparr>"

definition unsortedKeys :: objectProperties where
  "unsortedKeys =
     \<lparr> ownProperties = [(''1'', valueDesc), (''2'', valueDesc), (''11'', valueDesc),
                        (''bar'', valueDesc), (''_bar'', valueDesc)],
       prototype = protoOfClass ''bla'' \<rparr>"

definition quotedKeys :: objectProperties where
  "quotedKeys =
     \<lparr> ownProperties = [(''332217'', valueDesc), (''needs-quotes'', valueDesc),
                        (''unquoted'', valueDesc), ([], valueDesc)],
       prototype = protoOfClass ''WindowPrototype'' \<rparr>"

definition windowObject :: objectProperties where
  "windowObject =
     \<lparr> ownProperties = [(''bar'', valueDesc), (''location'', valueDesc)], prototype = None \<rparr>"

definition largeArray :: objectProperties where
  "largeArray =
     \<lparr> ownProperties = map (\<lambda>i. (showNat i, valueDesc)) [0..<331],
       prototype = protoOfClass ''Array'' \<rparr>"

section \<open>Properties of the utilities\<close>

lemma attachStack_appends: "\<exists>r. attachStack e s = s @ r"
  by (auto simp: attachStack_def split: sum.splits jsval.splits)

lemma safeErrorString_fallback:
  assumes "\<And>s. toStringResult e \<noteq> Inr (JString s)"
  shows "safeErrorString e = objectProtoToString e"
proof (cases "toStringResult e")
  case (Inl ee)
  then show ?thesis
    by (simp add: safeErrorString_def safeErrorString_body_def)
next
  case (Inr v)
  with assms have "\<And>s. v \<noteq> JString s" by auto
  with Inr show ?thesis
    by (cases v) (auto simp: safeErrorString_def safeErrorString_body_def)
qed

lemma safeErrorString_string:
  assumes "toStringResult e = Inr (JString s0)"
    and "lineNumberProp e = Inr ln" and "columnNumberProp e = Inr col"
  shows "safeErrorString e =
           Inr (attachStack e s0 @
                (case ln of
                   OtherValue \<Rightarrow> []
                 | NumberValue l \<Rightarrow>
                     (case col of
                        OtherValue \<Rightarrow> []
                      | NumberValue c \<Rightarrow> ''Line: '' @ l @ '', column: '' @ c)))"
  using assms
  by (simp add: safeErrorString_def safeErrorString_body_def Let_def split: positionProp.splits)

lemma attachStack_available:
  assumes "stackProp e = Inr st" and "truthy st" and "stackToString e = Inr (JString stack)"
  shows "attachStack e s = s @ CHR 0x0A # ''Stack: '' @ stack"
  using assms by (simp add: attachStack_def)

lemma attachStack_falsy:
  assumes "stackProp e = Inr st" and "\<not> truthy st"
  shows "attachStack e s = s"
  using assms by (simp add: attachStack_def)

lemma makeInfallible_apply:
  "makeInfallible aHandler aName arguments log = (handlerApply aHandler arguments, log)"
  by (simp add: makeInfallible_def Let_def)

lemma newError_string:
  "\<exists>rest. safeErrorString (newError eng (''Assertion failure: '' @ message))
             = Inr (''Error: Assertion failure: '' @ message @ rest)"
proof -
  let ?e = "newError eng (''Assertion failure: '' @ message)"
  have ts: "toStringResult ?e = Inr (JString (''Error: Assertion failure: '' @ message))"
    by (simp add: newError_def)
  have ln: "lineNumberProp ?e = Inr (errorLineNumber eng)"
    and col: "columnNumberProp ?e = Inr (errorColumnNumber eng)"
    by (simp_all add: newError_def)
  obtain r where r: "attachStack ?e (''Error: Assertion failure: '' @ message)
                       = (''Error: Assertion failure: '' @ message) @ r"
    using attachStack_appends by blast
  show ?thesis
    unfolding safeErrorString_string [OF ts ln col] r by simp
qed

text \<open>
  What \<open>safeErrorString\<close> does by design.  It returns a string whenever the
  coercion \<open>Object.prototype.toString.call\<close> does not throw.  When \<open>toString\<close>
  throws or returns a value that is not a string, the result is that coercion.  When
  \<open>toString\<close> returns a string, a truthy stack whose \<open>toString\<close> is a string is
  appended after \<open>Stack:\<close>, and a numeric \<open>lineNumber\<close> and \<open>columnNumber\<close> are
  appended after that, as the engine prints them.
\<close>

lemma safeErrorString_best_effort:
  "(\<forall>tag. builtinTag e = Inr tag \<longrightarrow> (\<exists>s. safeErrorString e = Inr s))
   \<and> ((\<forall>s. toStringResult e \<noteq> Inr (JString s))
        \<longrightarrow> safeErrorString e = objectProtoToString e)
   \<and> (toStringResult e = Inr (JString s0) \<and> stackProp e = Inr st \<and> truthy st
        \<and> stackToString e = Inr (JString stack)
        \<and> lineNumberProp e = Inr (NumberValue l) \<and> columnNumberProp e = Inr (NumberValue c)
        \<longrightarrow> safeErrorString e =
              Inr (s0 @ CHR 0x0A # ''Stack: '' @ stack @ ''Line: '' @ l @ '', column: '' @ c))
   \<and> (toStringResult e = Inr (JString s0) \<and> stackProp e = Inr st \<and> \<not> truthy st
        \<and> lineNumberProp e = Inr (NumberValue l) \<and> columnNumberProp e = Inr (NumberValue c)
        \<longrightarrow> safeErrorString e = Inr (s0 @ ''Line: '' @ l @ '', column: '' @ c))
   \<and> (toStringResult e = Inr (JString s0) \<and> stackProp e = Inr st \<and> truthy st
        \<and> stackToString e = Inr (JString stack) \<and> lineNumberProp e = Inr OtherValue
        \<longrightarrow> safeErrorString e = Inr (s0 @ CHR 0x0A # ''Stack: '' @ stack))"
proof (intro conjI impI allI)
  fix tag assume "builtinTag e = Inr tag"
  then show "\<exists>s. safeErrorString e = Inr s"
    by (auto simp: safeErrorString_def objectProtoToString_def split: sum.splits option.splits)
next
  assume "\<forall>s. toStringResult e \<noteq> Inr (JString s)"
  then show "safeErrorString e = objectProtoToString e"
    by (intro safeErrorString_fallback) blast
next
  assume a: "toStringResult e = Inr (JString s0) \<and> stackProp e = Inr st \<and> truthy st
        \<and> stackToString e = Inr (JString stack)
        \<and> lineNumberProp e = Inr (NumberValue l) \<and> columnNumberProp e = Inr (NumberValue c)"
  then have "attachStack e s0 = s0 @ CHR 0x0A # ''Stack: '' @ stack"
    by (intro attachStack_available [of e st]) simp_all
  with a show "safeErrorString e =
              Inr (s0 @ CHR 0x0A # ''Stack: '' @ stack @ ''Line: '' @ l @ '', column: '' @ c)"
    by (simp add: safeErrorString_string [of e s0 "NumberValue l" "NumberValue c"])
next
  assume a: "toStringResult e = Inr (JString s0) \<and> stackProp e = Inr st \<and> \<not> truthy st
        \<and> lineNumberProp e = Inr (NumberValue l) \<and> columnNumberProp e = Inr (NumberValue c)"
  then have "attachStack e s0 = s0"
    by (intro attachStack_falsy [of e st]) simp_all
  with a show "safeErrorString e = Inr (s0 @ ''Line: '' @ l @ '', column: '' @ c)"
    by (simp add: safeErrorString_string [of e s0 "NumberValue l" "NumberValue c"])
next
  assume a: "toStringResult e = Inr (JString s0) \<and> stackProp e = Inr st \<and> truthy st
        \<and> stackToString e = Inr (JString stack) \<and> lineNumberProp e = Inr OtherValue"
  then have "attachStack e s0 = s0 @ CHR 0x0A # ''Stack: '' @ stack"
    by (intro attachStack_available [of e st]) simp_all
  with a show "safeErrorString e = Inr (s0 @ CHR 0x0A # ''Stack: '' @ stack)"
    by (simp add: safeErrorString_def safeErrorString_body_def Let_def)
qed

lemma safeErrorString_located:
  "safeErrorString locatedError
     = Inr (''Error: boom'' @ CHR 0x0A # ''Stack: f@a.js:3:4Line: 3, column: 4'')"
  by (simp add: safeErrorString_def safeErrorString_body_def attachStack_def locatedError_def)

text \<open>
  C8.  The doc comment of \<open>safeErrorString\<close> promises a string without fail, for
  every argument.  The last line, the coercion
  \<open>Object.prototype.toString.call(aError)\<close>, stands outside both \<open>try\<close> blocks:
  for an object whose \<open>toString\<close> throws and whose \<open>Symbol.toStringTag\<close> getter
  throws, \<open>safeErrorString\<close> throws what the getter throws.
\<close>

theorem safeErrorString_throws:
  "safeErrorString hostileObject = Inl (Error ''toStringTag'')"
  by (simp add: safeErrorString_def safeErrorString_body_def objectProtoToString_def
      hostileObject_def)

text \<open>
  C2.  The wrapper that \<open>makeInfallible\<close> returns hands back whatever the handler
  returns; the source's doc comment promises that an exception of the handler is
  logged and not propagated, but with the \<open>try\<close> commented out a throwing handler
  makes the wrapper throw the same exception, and the console stays as it was.
\<close>

theorem makeInfallible_propagates:
  "makeInfallible \<lparr> handlerName = ''onPacket'',
                    handlerApply = (\<lambda>packet :: jsval. (Inl (Error ''boom'') :: error + jsval)) \<rparr>
     None JNull [] = (Inl (Error ''boom''), [])"
  by (simp add: makeInfallible_apply)

text \<open>
  C9.  \<open>assert\<close> throws exactly when assertions are enabled (a \<open>DEBUG\<close> or
  \<open>DEBUG_JS_MODULES\<close> build, or the testing flag) and the condition is falsy; it then
  throws the error \<open>Assertion failure: message\<close> after logging one line that reports
  it.  In every other case it returns \<open>undefined\<close> and leaves the console alone.
\<close>

theorem assert_throws_iff:
  "((DEBUG consts \<or> DEBUG_JS_MODULES consts \<or> testing) \<and> \<not> truthy condition
      \<longrightarrow> (\<exists>rest. assert consts testing eng condition message log =
             (Inl (Error (''Assertion failure: '' @ message)),
              log @ [''DevToolsUtils.assert threw an exception: ''
                     @ ''Error: Assertion failure: '' @ message @ rest])))
   \<and> (\<not> ((DEBUG consts \<or> DEBUG_JS_MODULES consts \<or> testing) \<and> \<not> truthy condition)
      \<longrightarrow> assert consts testing eng condition message log = (Inr JUndefined, log))"
proof (intro conjI impI)
  assume a: "(DEBUG consts \<or> DEBUG_JS_MODULES consts \<or> testing) \<and> \<not> truthy condition"
  obtain rest where r: "safeErrorString (newError eng (''Assertion failure: '' @ message))
             = Inr (''Error: Assertion failure: '' @ message @ rest)"
    using newError_string by blast
  have "assert consts testing eng condition message log =
             (Inl (Error (''Assertion failure: '' @ message)),
              log @ [''DevToolsUtils.assert threw an exception: ''
                     @ ''Error: Assertion failure: '' @ message @ rest])"
    using a r by (simp add: assert_def reallyAssert_def reportException_def Let_def)
  then show "\<exists>rest. assert consts testing eng condition message log =
             (Inl (Error (''Assertion failure: '' @ message)),
              log @ [''DevToolsUtils.assert threw an exception: ''
                     @ ''Error: Assertion failure: '' @ message @ rest])"
    by blast
next
  assume "\<not> ((DEBUG consts \<or> DEBUG_JS_MODULES consts \<or> testing) \<and> \<not> truthy condition)"
  then show "assert consts testing eng condition message log = (Inr JUndefined, log)"
    by (auto simp: assert_def reallyAssert_def noop_def)
qed

theorem assert_throws_iff_witness:
  "(\<exists>rest. assert \<lparr>DEBUG = False, DEBUG_JS_MODULES = False\<rparr> True
       \<lparr>errorStack = None, errorLineNumber = OtherValue, errorColumnNumber = OtherValue\<rparr>
       (JBool False) ''x > 0'' [] =
      (Inl (Error ''Assertion failure: x > 0''),
       [''DevToolsUtils.assert threw an exception: Error: Assertion failure: x > 0'' @ rest]))
   \<and> assert \<lparr>DEBUG = False, DEBUG_JS_MODULES = False\<rparr> False
       \<lparr>errorStack = None, errorLineNumber = OtherValue, errorColumnNumber = OtherValue\<rparr>
       (JBool False) ''x > 0'' [] = (Inr JUndefined, [])"
proof -
  let ?eng = "\<lparr>errorStack = None, errorLineNumber = OtherValue,
               errorColumnNumber = OtherValue\<rparr>"
  have 1: "\<exists>rest. assert \<lparr>DEBUG = False, DEBUG_JS_MODULES = False\<rparr> True ?eng
       (JBool False) ''x > 0'' [] =
      (Inl (Error (''Assertion failure: '' @ ''x > 0'')),
       [] @ [''DevToolsUtils.assert threw an exception: ''
             @ ''Error: Assertion failure: '' @ ''x > 0'' @ rest])"
    using assert_throws_iff [of "\<lparr>DEBUG = False, DEBUG_JS_MODULES = False\<rparr>" True "JBool False"
        ?eng "''x > 0''" "[]"]
    by simp
  have 2: "assert \<lparr>DEBUG = False, DEBUG_JS_MODULES = False\<rparr> False ?eng
       (JBool False) ''x > 0'' [] = (Inr JUndefined, [])"
    using assert_throws_iff [of "\<lparr>DEBUG = False, DEBUG_JS_MODULES = False\<rparr>" False "JBool False"
        ?eng "''x > 0''" "[]"]
    by simp
  from 1 2 show ?thesis by simp
qed


subsection \<open>settleAll\<close>


lemma settleLoop_fold: "settleLoop values i st = fold settle (plainCallbacks i values) st"
  by (induction "values" i st rule: settleLoop.induct) simp_all

lemma fulfilment_append:
  "fulfilment i (xs @ ys) = (case fulfilment i xs of Some v \<Rightarrow> Some v | None \<Rightarrow> fulfilment i ys)"
  by (induction i xs rule: fulfilment.induct) simp_all

lemma firstRejection_append:
  "firstRejection (xs @ ys) = (case firstRejection xs of Some e \<Rightarrow> Some e | None \<Rightarrow> firstRejection ys)"
  by (induction xs rule: firstRejection.induct) simp_all

lemma fulfilment_absent: "i \<notin> set (map settledIndex evs) \<Longrightarrow> fulfilment i evs = None"
  by (induction i evs rule: fulfilment.induct) simp_all

lemma bounded_distinct_length:
  assumes "distinct (xs :: nat list)" and "\<forall>x\<in>set xs. x < n"
  shows "length xs \<le> n"
proof -
  have "length xs = card (set xs)" using assms(1) by (simp add: distinct_card)
  also have "\<dots> \<le> card {..<n}" using assms(2) by (intro card_mono) auto
  finally show ?thesis by simp
qed

lemma settledAs_step:
  assumes inv: "settledAs n cbs st" and lt: "length cbs < n"
    and idx: "settledIndex ev < n" and fresh: "settledIndex ev \<notin> set (map settledIndex cbs)"
  shows "settledAs n (cbs @ [ev]) (settle ev st)"
proof (cases ev)
  case (Fulfilled j v)
  have none: "fulfilment j cbs = None" using fresh Fulfilled by (simp add: fulfilment_absent)
  show ?thesis
    using inv lt idx none unfolding Fulfilled settledAs_def
    by (auto simp: resolver_def checkForCompletion_def Let_def deferredResolve_def
        deferredReject_def fulfilment_append firstRejection_append nth_list_update
        split: option.splits)
next
  case (RejectedWith j e)
  show ?thesis
    using inv lt idx unfolding RejectedWith settledAs_def
    by (auto simp: rejecter_def checkForCompletion_def Let_def deferredResolve_def
        deferredReject_def fulfilment_append firstRejection_append
        split: option.splits)
qed

lemma settledAs_fold:
  assumes "distinct (map settledIndex cbs)" and "\<forall>ev\<in>set cbs. settledIndex ev < n"
    and "0 < n"
  shows "settledAs n cbs (fold settle cbs (settleInit n))"
  using assms
proof (induction cbs rule: rev_induct)
  case Nil
  then show ?case by (simp add: settledAs_def settleInit_def)
next
  case (snoc ev cbs)
  have "length (map settledIndex (cbs @ [ev])) \<le> n"
    using snoc.prems by (intro bounded_distinct_length) auto
  then have lt: "length cbs < n" by simp
  have "settledAs n cbs (fold settle cbs (settleInit n))"
    using snoc by simp
  then have "settledAs n (cbs @ [ev]) (settle ev (fold settle cbs (settleInit n)))"
    using lt snoc.prems by (intro settledAs_step) auto
  then show ?case by simp
qed


lemma plainCallbacks_index:
  "set (map settledIndex (plainCallbacks i vs :: ('v, 'e) settlement list))
     = {i + k |k. k < length vs \<and> vs ! k \<noteq> Thenable}"
proof (induction i vs rule: plainCallbacks.induct)
  case (1 i)
  then show ?case by simp
next
  case (2 i v vs)
  have "{i + k |k. k < length (Plain v # vs) \<and> (Plain v # vs) ! k \<noteq> Thenable}
          = insert i {i + 1 + k |k. k < length vs \<and> vs ! k \<noteq> Thenable}"
    (is "?L = ?R")
  proof (intro set_eqI iffI)
    fix x assume "x \<in> ?L"
    then obtain k where k: "x = i + k" "k < length (Plain v # vs)" "(Plain v # vs) ! k \<noteq> Thenable"
      by blast
    show "x \<in> ?R"
    proof (cases k)
      case 0 then show ?thesis using k by simp
    next
      case (Suc m) then show ?thesis using k by auto
    qed
  next
    fix x assume "x \<in> ?R"
    then consider "x = i" | k where "x = i + 1 + k" "k < length vs" "vs ! k \<noteq> Thenable"
      by blast
    then show "x \<in> ?L"
    proof cases
      case 1
      then have "x = i + 0 \<and> 0 < length (Plain v # vs) \<and> (Plain v # vs) ! 0 \<noteq> Thenable" by simp
      then show ?thesis by blast
    next
      case 2
      then have "x = i + Suc k \<and> Suc k < length (Plain v # vs) \<and> (Plain v # vs) ! Suc k \<noteq> Thenable"
        by simp
      then show ?thesis by blast
    qed
  qed
  with 2 show ?case by simp
next
  case (3 i vs)
  have "{i + k |k. k < length (Thenable # vs) \<and> (Thenable # vs) ! k \<noteq> Thenable}
          = {i + 1 + k |k. k < length vs \<and> vs ! k \<noteq> Thenable}"
    (is "?L = ?R")
  proof (intro set_eqI iffI)
    fix x assume "x \<in> ?L"
    then obtain k where k: "x = i + k" "k < length (Thenable # vs)" "(Thenable # vs) ! k \<noteq> Thenable"
      by blast
    show "x \<in> ?R"
    proof (cases k)
      case 0 then show ?thesis using k by simp
    next
      case (Suc m) then show ?thesis using k by auto
    qed
  next
    fix x assume "x \<in> ?R"
    then obtain k where "x = i + 1 + k" "k < length vs" "vs ! k \<noteq> Thenable"
      by blast
    then have "x = i + Suc k \<and> Suc k < length (Thenable # vs) \<and> (Thenable # vs) ! Suc k \<noteq> Thenable"
      by simp
    then show "x \<in> ?L" by blast
  qed
  with 3 show ?case by simp
qed

lemma plainCallbacks_lower:
  "x \<in> set (map settledIndex (plainCallbacks i vs :: ('v, 'e) settlement list)) \<Longrightarrow> i \<le> x"
  unfolding plainCallbacks_index by auto

lemma plainCallbacks_distinct:
  "distinct (map settledIndex (plainCallbacks i vs :: ('v, 'e) settlement list))"
proof (induction i vs rule: plainCallbacks.induct)
  case (2 i v vs)
  have "i \<notin> set (map settledIndex (plainCallbacks (i + 1) vs :: ('v, 'e) settlement list))"
    using plainCallbacks_lower [of i "i + 1" vs] by auto
  with 2 show ?case by simp
qed simp_all

lemma plainCallbacks_length:
  "length (plainCallbacks i vs) = length (filter (\<lambda>x. x \<noteq> Thenable) vs)"
  by (induction i vs rule: plainCallbacks.induct) simp_all

lemma plainCallbacks_firstRejection: "firstRejection (plainCallbacks i vs) = None"
  by (induction i vs rule: plainCallbacks.induct) simp_all

lemma plainCallbacks_fulfilment:
  "fulfilment (i + k) (plainCallbacks i vs :: ('v, 'e) settlement list) =
     (if k < length vs then (case vs ! k of Plain v \<Rightarrow> Some v | Thenable \<Rightarrow> None) else None)"
proof (induction i vs arbitrary: k rule: plainCallbacks.induct)
  case (1 i)
  then show ?case by simp
next
  case (2 i v vs)
  show ?case
  proof (cases k)
    case 0 then show ?thesis by simp
  next
    case (Suc m)
    then show ?thesis using 2 [of m] by simp
  qed
next
  case (3 i vs)
  show ?case
  proof (cases k)
    case 0
    have "i \<notin> set (map settledIndex (plainCallbacks (i + 1) vs :: ('v, 'e) settlement list))"
      using plainCallbacks_lower [of i "i + 1" vs] by auto
    then show ?thesis using 0 by (simp add: fulfilment_absent)
  next
    case (Suc m)
    then show ?thesis using 3 [of m] by simp
  qed
qed


lemma wellFormed_indexes:
  assumes "wellFormed vs evs"
  shows "distinct (map settledIndex evs)"
    and "set (map settledIndex evs) \<subseteq> {i. i < length vs \<and> vs ! i = Thenable}"
  using assms by (auto simp: wellFormed_def list_all_iff)

lemma allSettled_iff:
  "allSettled vs evs \<longleftrightarrow> {i. i < length vs \<and> vs ! i = Thenable} \<subseteq> set (map settledIndex evs)"
  by (auto simp: allSettled_def list_all_iff)

lemma allSettled_length:
  assumes wf: "wellFormed vs evs"
  shows "allSettled vs evs \<longleftrightarrow> length evs = length (filter (\<lambda>x. x = Thenable) vs)"
    and "length evs \<le> length (filter (\<lambda>x. x = Thenable) vs)"
proof -
  let ?S = "{i. i < length vs \<and> vs ! i = Thenable}"
  let ?I = "set (map settledIndex evs)"
  have fin: "finite ?S" by simp
  have sub: "?I \<subseteq> ?S" using wellFormed_indexes(2) [OF wf] .
  have cardI: "card ?I = length evs"
    using wellFormed_indexes(1) [OF wf] distinct_card [of "map settledIndex evs"] by simp
  have cardS: "card ?S = length (filter (\<lambda>x. x = Thenable) vs)"
    by (simp add: length_filter_conv_card)
  show "length evs \<le> length (filter (\<lambda>x. x = Thenable) vs)"
    using card_mono [OF fin sub] cardI cardS by simp
  show "allSettled vs evs \<longleftrightarrow> length evs = length (filter (\<lambda>x. x = Thenable) vs)"
  proof
    assume "allSettled vs evs"
    then have "?S \<subseteq> ?I" by (simp add: allSettled_iff)
    with sub have "?I = ?S" by blast
    then show "length evs = length (filter (\<lambda>x. x = Thenable) vs)"
      using cardI cardS by simp
  next
    assume "length evs = length (filter (\<lambda>x. x = Thenable) vs)"
    then have "card ?I = card ?S" using cardI cardS by simp
    then have "?I = ?S" using card_subset_eq [OF fin sub] by simp
    then show "allSettled vs evs" by (simp add: allSettled_iff)
  qed
qed

lemma settleAll_run:
  assumes wf: "wellFormed vs (evs :: ('v, 'e) settlement list)" and pos: "0 < length vs"
  shows "settledAs (length vs) (plainCallbacks 0 vs @ evs)
           (settleMany evs (settleLoop vs 0 (settleInit (length vs))))"
proof -
  let ?P = "plainCallbacks 0 vs :: ('v, 'e) settlement list"
  have pidx: "set (map settledIndex ?P) = {k. k < length vs \<and> vs ! k \<noteq> Thenable}"
    using plainCallbacks_index [of 0 vs, where ?'e = 'e] by simp
  have eidx: "set (map settledIndex evs) \<subseteq> {i. i < length vs \<and> vs ! i = Thenable}"
    using wellFormed_indexes(2) [OF wf] .
  have "set (map settledIndex ?P) \<inter> set (map settledIndex evs) = {}"
    using pidx eidx by blast
  then have d: "distinct (map settledIndex (?P @ evs))"
    using plainCallbacks_distinct [of 0 vs, where ?'e = 'e] wellFormed_indexes(1) [OF wf]
    by simp
  have b: "\<forall>ev\<in>set (?P @ evs). settledIndex ev < length vs"
  proof
    fix ev assume "ev \<in> set (?P @ evs)"
    then have "settledIndex ev \<in> set (map settledIndex ?P) \<union> set (map settledIndex evs)"
      by auto
    then show "settledIndex ev < length vs" using pidx eidx by blast
  qed
  have "settledAs (length vs) (?P @ evs) (fold settle (?P @ evs) (settleInit (length vs)))"
    using settledAs_fold [OF d b pos] .
  then show ?thesis by (simp add: settleMany_def settleLoop_fold)
qed

lemma fulfilment_present:
  "firstRejection evs = None \<Longrightarrow> i \<in> set (map settledIndex evs) \<Longrightarrow> fulfilment i evs \<noteq> None"
  by (induction i evs rule: fulfilment.induct) auto

lemma resolutionValues_run:
  assumes wf: "wellFormed vs (evs :: ('v, 'e) settlement list)" and pos: "0 < length vs"
  shows "resolutionValues (settleMany evs (settleLoop vs 0 (settleInit (length vs))))
           = expectedValues vs evs"
proof (rule nth_equalityI)
  let ?st = "settleMany evs (settleLoop vs 0 (settleInit (length vs))) :: ('v, 'e) settleState"
  have inv: "settledAs (length vs) (plainCallbacks 0 vs @ evs) ?st"
    using settleAll_run [OF wf pos] .
  show len: "length (resolutionValues ?st) = length (expectedValues vs evs)"
    using inv by (simp add: settledAs_def expectedValues_def)
  fix i assume "i < length (resolutionValues ?st)"
  then have i: "i < length vs" using len by (simp add: expectedValues_def)
  have "resolutionValues ?st ! i = fulfilment i (plainCallbacks 0 vs @ evs)"
    using inv i by (simp add: settledAs_def)
  also have "\<dots> = (case vs ! i of Plain v \<Rightarrow> Some v | Thenable \<Rightarrow> fulfilment i evs)"
    using plainCallbacks_fulfilment [of 0 i vs, where ?'e = 'e] i
    by (simp add: fulfilment_append split: settleInput.splits)
  finally show "resolutionValues ?st ! i = expectedValues vs evs ! i"
    using i by (simp add: expectedValues_def split: settleInput.splits)
qed

lemma deferred_run:
  assumes wf: "wellFormed vs (evs :: ('v, 'e) settlement list)" and pos: "0 < length vs"
  shows "deferred (settleMany evs (settleLoop vs 0 (settleInit (length vs))))
           = (if \<not> allSettled vs evs then Pending
              else if firstRejection evs \<noteq> None then Rejected (firstRejection evs)
              else Resolved)"
proof -
  let ?st = "settleMany evs (settleLoop vs 0 (settleInit (length vs))) :: ('v, 'e) settleState"
  let ?P = "plainCallbacks 0 vs :: ('v, 'e) settlement list"
  have inv: "settledAs (length vs) (?P @ evs) ?st"
    using settleAll_run [OF wf pos] .
  have split: "length (filter (\<lambda>x. x \<noteq> Thenable) vs) + length (filter (\<lambda>x. x = Thenable) vs)
                = length vs"
    using sum_length_filter_compl [of "\<lambda>x. x \<noteq> Thenable" vs] by simp
  have "length (?P @ evs) < length vs \<longleftrightarrow> length evs < length (filter (\<lambda>x. x = Thenable) vs)"
    using split unfolding length_append plainCallbacks_length by linarith
  also have "\<dots> \<longleftrightarrow> length evs \<noteq> length (filter (\<lambda>x. x = Thenable) vs)"
    using allSettled_length(2) [OF wf] by linarith
  finally have lt: "length (?P @ evs) < length vs \<longleftrightarrow> \<not> allSettled vs evs"
    using allSettled_length(1) [OF wf] by simp
  have fr: "firstRejection (?P @ evs) = firstRejection evs"
    by (simp add: firstRejection_append plainCallbacks_firstRejection)
  show ?thesis
    using inv lt fr unfolding settledAs_def by presburger
qed

lemma expectedValues_filled:
  assumes "allSettled vs evs" and "firstRejection evs = None"
  shows "list_all (\<lambda>x. x \<noteq> None) (expectedValues vs evs)"
proof -
  have "\<And>i. i < length vs \<Longrightarrow>
          (case vs ! i of Plain v \<Rightarrow> Some v | Thenable \<Rightarrow> fulfilment i evs) \<noteq> None"
  proof -
    fix i assume i: "i < length vs"
    show "(case vs ! i of Plain v \<Rightarrow> Some v | Thenable \<Rightarrow> fulfilment i evs) \<noteq> None"
    proof (cases "vs ! i")
      case (Plain v) then show ?thesis by simp
    next
      case Thenable
      then have "i \<in> set (map settledIndex evs)"
        using assms(1) i unfolding allSettled_iff by blast
      then show ?thesis using Thenable fulfilment_present [OF assms(2)] by simp
    qed
  qed
  then show ?thesis by (simp add: expectedValues_def list_all_iff)
qed

text \<open>
  C1.  For every list of inputs and every well-formed schedule of their settlements,
  \<open>settleAll\<close> returns a promise that is still pending while some thenable has not
  settled, also after a rejection; once all have settled it is resolved with the array
  that holds each resolved value at the position of its input, every slot filled, when
  nothing was rejected, and rejected with the reason of the first rejection of the
  schedule otherwise.  Over an empty input the promise is resolved on return.
\<close>

theorem settleAll_settles_after_all:
  assumes wf: "wellFormed vs (evs :: ('v, 'e) settlement list)"
  shows "\<exists>st0. settleAll (ArgIterable vs) = Inr st0
     \<and> (\<not> allSettled vs evs \<longrightarrow> outcome (settleMany evs st0) = None)
     \<and> (allSettled vs evs \<and> firstRejection evs = None \<longrightarrow>
          outcome (settleMany evs st0) = Some (Inr (expectedValues vs evs))
          \<and> list_all (\<lambda>x. x \<noteq> None) (expectedValues vs evs))
     \<and> (\<forall>e. allSettled vs evs \<and> firstRejection evs = Some e \<longrightarrow>
          outcome (settleMany evs st0) = Some (Inl (Some e)))
     \<and> (vs = [] \<longrightarrow> outcome st0 = Some (Inr []))"
proof (cases "vs = []")
  case True
  then have "evs = []" using wf allSettled_length(2) [OF wf] by simp
  then show ?thesis
    using True
    by (simp add: settleAll_def settleInit_def deferredResolve_def settleMany_def outcome_def
        allSettled_def expectedValues_def)
next
  case False
  then have pos: "0 < length vs" by simp
  let ?st0 = "settleLoop vs 0 (settleInit (length vs)) :: ('v, 'e) settleState"
  have st0: "settleAll (ArgIterable vs) = Inr ?st0"
    using pos by (simp add: settleAll_def Let_def settleInit_def)
  have d: "deferred (settleMany evs ?st0)
           = (if \<not> allSettled vs evs then Pending
              else if firstRejection evs \<noteq> None then Rejected (firstRejection evs)
              else Resolved)"
    using deferred_run [OF wf pos] .
  have r: "resolutionValues (settleMany evs ?st0) = expectedValues vs evs"
    using resolutionValues_run [OF wf pos] .
  have 1: "\<not> allSettled vs evs \<longrightarrow> outcome (settleMany evs ?st0) = None"
    using d by (simp add: outcome_def)
  have 2: "allSettled vs evs \<and> firstRejection evs = None \<longrightarrow>
          outcome (settleMany evs ?st0) = Some (Inr (expectedValues vs evs))
          \<and> list_all (\<lambda>x. x \<noteq> None) (expectedValues vs evs)"
    using d r expectedValues_filled [of vs evs] by (simp add: outcome_def)
  have 3: "\<forall>e. allSettled vs evs \<and> firstRejection evs = Some e \<longrightarrow>
          outcome (settleMany evs ?st0) = Some (Inl (Some e))"
    using d by (simp add: outcome_def)
  show ?thesis using st0 1 2 3 False by simp
qed

text \<open>
  C10.  For \<open>null\<close>, for \<open>undefined\<close> and for a value without a
  \<open>Symbol.iterator\<close> method \<open>settleAll\<close> throws instead of returning a promise.
  For an iterable, every element that is not a thenable is stored unchanged at its own
  position of the resolution array, whatever the thenables do afterwards.
\<close>

theorem settleAll_forwards_plain:
  "settleAll ArgNull = (Inl (Error ''settleAll() expects an iterable.'') :: error + ('v, 'e) settleState)
   \<and> settleAll ArgNotIterable = (Inl (Error ''settleAll() expects an iterable.'') :: error + ('v, 'e) settleState)
   \<and> (\<exists>err. settleAll ArgUndefined = (Inl err :: error + ('v, 'e) settleState))
   \<and> (wellFormed vs (evs :: ('v, 'e) settlement list) \<and> i < length vs \<and> vs ! i = Plain v \<longrightarrow>
        (\<exists>st0. settleAll (ArgIterable vs) = Inr st0
           \<and> resolutionValues (settleMany evs st0) ! i = Some v
           \<and> (\<forall>arr. outcome (settleMany evs st0) = Some (Inr arr) \<longrightarrow> arr ! i = Some v)))"
proof (intro conjI impI)
  assume a: "wellFormed vs evs \<and> i < length vs \<and> vs ! i = Plain v"
  then have wf: "wellFormed vs evs" and pos: "0 < length vs" by auto
  let ?st0 = "settleLoop vs 0 (settleInit (length vs)) :: ('v, 'e) settleState"
  have st0: "settleAll (ArgIterable vs) = Inr ?st0"
    using pos by (simp add: settleAll_def Let_def settleInit_def)
  have r: "resolutionValues (settleMany evs ?st0) ! i = Some v"
    using resolutionValues_run [OF wf pos] a by (simp add: expectedValues_def)
  have "\<forall>arr. outcome (settleMany evs ?st0) = Some (Inr arr) \<longrightarrow> arr ! i = Some v"
    using r by (auto simp: outcome_def split: deferredState.splits)
  with st0 r show "\<exists>st0. settleAll (ArgIterable vs) = Inr st0
           \<and> resolutionValues (settleMany evs st0) ! i = Some v
           \<and> (\<forall>arr. outcome (settleMany evs st0) = Some (Inr arr) \<longrightarrow> arr ! i = Some v)"
    by blast
qed (simp_all add: settleAll_def)


theorem settleAll_settles_after_all_witness:
  "wellFormed [Plain (1::nat), Thenable, Thenable] [Fulfilled 2 7, Fulfilled 1 5 :: (nat, string) settlement]
   \<and> (\<exists>st0. settleAll (ArgIterable [Plain (1::nat), Thenable, Thenable]) = Inr st0
         \<and> outcome (settleMany [Fulfilled 2 7, Fulfilled 1 5 :: (nat, string) settlement] st0)
             = Some (Inr [Some 1, Some 5, Some 7]))
   \<and> (\<exists>st0. settleAll (ArgIterable [Plain (1::nat), Thenable, Thenable]) = Inr st0
         \<and> outcome (settleMany [RejectedWith 2 ''late'' :: (nat, string) settlement] st0) = None)
   \<and> (\<exists>st0. settleAll (ArgIterable [Plain (1::nat), Thenable, Thenable]) = Inr st0
         \<and> outcome (settleMany [RejectedWith 2 ''first'', RejectedWith 1 ''second''
               :: (nat, string) settlement] st0) = Some (Inl (Some ''first'')))"
proof -
  let ?vs = "[Plain (1::nat), Thenable, Thenable]"
  have w1: "wellFormed ?vs [Fulfilled 2 7, Fulfilled 1 5 :: (nat, string) settlement]"
    and w2: "wellFormed ?vs [RejectedWith 2 ''late'' :: (nat, string) settlement]"
    and w3: "wellFormed ?vs [RejectedWith 2 ''first'', RejectedWith 1 ''second''
               :: (nat, string) settlement]"
    by (simp_all add: wellFormed_def)
  have 1: "\<exists>st0. settleAll (ArgIterable ?vs) = Inr st0
         \<and> outcome (settleMany [Fulfilled 2 7, Fulfilled 1 5 :: (nat, string) settlement] st0)
             = Some (Inr [Some 1, Some 5, Some 7])"
    using settleAll_settles_after_all [OF w1]
    by (simp add: allSettled_def expectedValues_def)
  have 2: "\<exists>st0. settleAll (ArgIterable ?vs) = Inr st0
         \<and> outcome (settleMany [RejectedWith 2 ''late'' :: (nat, string) settlement] st0) = None"
    using settleAll_settles_after_all [OF w2]
    by (simp add: allSettled_def)
  have 3: "\<exists>st0. settleAll (ArgIterable ?vs) = Inr st0
         \<and> outcome (settleMany [RejectedWith 2 ''first'', RejectedWith 1 ''second''
               :: (nat, string) settlement] st0) = Some (Inl (Some ''first''))"
    using settleAll_settles_after_all [OF w3]
    by (simp add: allSettled_def)
  from w1 1 2 3 show ?thesis by blast
qed

theorem settleAll_forwards_plain_witness:
  "\<exists>st0. settleAll (ArgIterable [Plain ''a'', Thenable, Plain ''c'']) = Inr st0
      \<and> resolutionValues (settleMany [Fulfilled 1 ''b'' :: (string, string) settlement] st0) ! 2
          = Some ''c''
      \<and> outcome (settleMany [Fulfilled 1 ''b'' :: (string, string) settlement] st0)
          = Some (Inr [Some ''a'', Some ''b'', Some ''c''])"
proof -
  have "\<exists>st0. settleAll (ArgIterable [Plain ''a'', Thenable, Plain ''c'']) = Inr st0
      \<and> resolutionValues (settleMany [Fulfilled 1 ''b'' :: (string, string) settlement] st0) ! 2
          = Some ''c''"
    using settleAll_forwards_plain [of "[Plain ''a'', Thenable, Plain ''c'']"
        "[Fulfilled 1 ''b'']" 2 "''c''"]
    by (auto simp: wellFormed_def)
  moreover have "\<And>st0. settleAll (ArgIterable [Plain ''a'', Thenable, Plain ''c'']) = Inr st0 \<Longrightarrow>
      outcome (settleMany [Fulfilled 1 ''b'' :: (string, string) settlement] st0)
          = Some (Inr [Some ''a'', Some ''b'', Some ''c''])"
    by (auto simp: settleAll_def settleInit_def Let_def settleMany_def resolver_def
        checkForCompletion_def deferredResolve_def outcome_def numeral_3_eq_3)
  ultimately show ?thesis by blast
qed


section \<open>Properties of the map renderer\<close>


lemma reduceIndexes_result:
  "reduceIndexes f m es i acc = Inr r \<Longrightarrow>
     r = acc @ take (m - length acc)
                 (map fst (filter (\<lambda>jk. applyFilter f (snd jk) = Inr True) (enumerate i es)))"
proof (induction es arbitrary: i acc)
  case Nil
  then show ?case by simp
next
  case (Cons ke es)
  show ?case
  proof (cases "length acc < m")
    case False
    with Cons.prems have "reduceIndexes f m es (i + 1) acc = Inr r" by simp
    from Cons.IH [OF this] False show ?thesis by simp
  next
    case True
    with Cons.prems obtain b where b: "applyFilter f ke = Inr b"
      and rec: "reduceIndexes f m es (i + 1) (if b then acc @ [i] else acc) = Inr r"
      by (auto split: sum.splits)
    show ?thesis
    proof (cases b)
      case True
      have "m - length acc = Suc (m - length (acc @ [i]))" using \<open>length acc < m\<close> by simp
      then show ?thesis using Cons.IH [OF rec] b True by simp
    next
      case False
      then show ?thesis using Cons.IH [OF rec] b by simp
    qed
  qed
qed

lemma reduceIndexes_evaluated:
  "reduceIndexes f m es i acc = Inr r \<Longrightarrow> length r < m \<Longrightarrow>
     \<forall>ke\<in>set es. \<exists>b. applyFilter f ke = Inr b"
proof (induction es arbitrary: i acc)
  case Nil
  then show ?case by simp
next
  case (Cons ke es)
  have "length acc \<le> length r"
    using reduceIndexes_result [OF Cons.prems(1)] by simp
  then have lt: "length acc < m" using Cons.prems(2) by simp
  with Cons.prems obtain b where b: "applyFilter f ke = Inr b"
      and rec: "reduceIndexes f m es (i + 1) (if b then acc @ [i] else acc) = Inr r"
    by (auto split: sum.splits)
  from Cons.IH [OF rec Cons.prems(2)] b show ?case by auto
qed

lemma enumerate_filter_index:
  "map fst (filter (\<lambda>jk. Q (snd jk)) (enumerate 0 es)) = filter (\<lambda>j. Q (es ! j)) [0..<length es]"
proof -
  have "filter (\<lambda>j. Q (es ! j)) [0..<length es]
          = filter (\<lambda>j. Q (es ! j)) (map fst (enumerate 0 es))"
    by simp
  also have "\<dots> = map fst (filter ((\<lambda>j. Q (es ! j)) \<circ> fst) (enumerate 0 es))"
    by (simp only: filter_map)
  also have "filter ((\<lambda>j. Q (es ! j)) \<circ> fst) (enumerate 0 es)
               = filter (\<lambda>jk. Q (snd jk)) (enumerate 0 es)"
    by (rule filter_cong) (auto simp: in_set_enumerate_eq)
  finally show ?thesis by simp
qed

lemma getEntriesIndexes_result:
  assumes "getEntriesIndexes es m f = Inr r"
  shows "r = take m (filter (\<lambda>j. applyFilter f (es ! j) = Inr True) [0..<length es])"
  using reduceIndexes_result [of f m es 0 "[]" r] assms
    enumerate_filter_index [of "\<lambda>ke. applyFilter f ke = Inr True" es]
  by (simp add: getEntriesIndexes_def)

lemma getEntriesIndexes_evaluated:
  assumes "getEntriesIndexes es m f = Inr r" and "length r < m"
  shows "\<forall>ke\<in>set es. \<exists>b. applyFilter f ke = Inr b"
  using reduceIndexes_evaluated [of f m es 0 "[]" r] assms
  by (simp add: getEntriesIndexes_def)

lemma applyFilter_negate:
  "applyFilter (negateFilter f) ke = Inr True \<longleftrightarrow> applyFilter f ke = Inr False"
  by (auto simp: applyFilter_def negateFilter_def split: sum.splits)

lemma selectIndexes_result:
  assumes "selectIndexes f es m = Inr r"
  shows "r = take m (interestingIndexes f es)
             @ take (m - length (interestingIndexes f es)) (otherIndexes f es)"
proof -
  let ?I = "interestingIndexes f es" and ?O = "otherIndexes f es"
  from assms obtain a where a: "getEntriesIndexes es m f = Inr a"
    by (auto simp: selectIndexes_def split: sum.splits)
  have a_eq: "a = take m ?I"
    using getEntriesIndexes_result [OF a] by (simp add: interestingIndexes_def interesting_def)
  have lenI: "length ?I \<le> length es"
    unfolding interestingIndexes_def using length_filter_le [of _ "[0..<length es]"] by simp
  show ?thesis
  proof (cases "length a < m \<and> length a < length es")
    case True
    with assms a obtain b where b: "getEntriesIndexes es (m - length a) (negateFilter f) = Inr b"
      and r: "r = a @ b"
      by (auto simp: selectIndexes_def split: sum.splits)
    have all: "\<forall>ke\<in>set es. \<exists>v. applyFilter f ke = Inr v"
      using getEntriesIndexes_evaluated [OF a] True by simp
    have "length ?I < m" using a_eq True by (simp add: min_def split: if_splits)
    then have aI: "a = ?I" using a_eq by simp
    have "filter (\<lambda>j. applyFilter (negateFilter f) (es ! j) = Inr True) [0..<length es] = ?O"
      unfolding otherIndexes_def
    proof (rule filter_cong [OF refl])
      fix j assume "j \<in> set [0..<length es]"
      then have "es ! j \<in> set es" by simp
      with all obtain v where "applyFilter f (es ! j) = Inr v" by blast
      then show "(applyFilter (negateFilter f) (es ! j) = Inr True)
                   = (\<not> interesting f (es ! j))"
        by (simp add: applyFilter_negate interesting_def)
    qed
    then have "b = take (m - length a) ?O"
      using getEntriesIndexes_result [OF b] by simp
    with r aI True show ?thesis by simp
  next
    case False
    with assms a have r: "r = a" by (auto simp: selectIndexes_def split: sum.splits)
    show ?thesis
    proof (cases "length a < m")
      case True
      with False have "length es \<le> length a" by simp
      with a_eq lenI have full: "length ?I = length es" by simp
      have "?O = []"
      proof -
        have "length ?I + length ?O = length [0..<length es]"
          unfolding interestingIndexes_def otherIndexes_def
          by (rule sum_length_filter_compl)
        with full show ?thesis by simp
      qed
      with r a_eq show ?thesis by simp
    next
      case False
      with a_eq have "m \<le> length ?I" by simp
      with r a_eq show ?thesis by simp
    qed
  qed
qed


lemma shownValue_shownEntry:
  "shownValue (snd ke) = Inr v \<Longrightarrow> shownEntry ke = (fst ke, v)"
  by (auto simp: shownValue_def shownEntry_def getValue_def split: jsval.splits)

lemma mapIndexes_shown:
  "mapIndexes es len i idxs = Inr els \<Longrightarrow>
     shownEntries els = map (\<lambda>j. shownEntry (es ! j)) idxs \<and> length els = length idxs"
proof (induction idxs arbitrary: i els)
  case Nil
  then show ?case by simp
next
  case (Cons j idxs)
  from Cons.prems obtain v rest where j: "j < length es"
    and v: "shownValue (snd (es ! j)) = Inr v"
    and rest: "mapIndexes es len (i + 1) idxs = Inr rest"
    and els: "els = PropRep (fst (es ! j)) v
                      (if int i < int len - 1 \<or> len < length es then '', '' else []) # rest"
    by (auto split: if_splits sum.splits)
  from Cons.IH [OF rest] shownValue_shownEntry [OF v] els show ?case by simp
qed

lemma interestingIndexes_sorted:
  "sorted (interestingIndexes f es)" "distinct (interestingIndexes f es)"
  "set (interestingIndexes f es) = {j. j < length es \<and> interesting f (es ! j)}"
  by (auto simp: interestingIndexes_def sorted_wrt_filter)

lemma otherIndexes_sorted:
  "sorted (otherIndexes f es)" "distinct (otherIndexes f es)"
  "set (otherIndexes f es) = {j. j < length es \<and> \<not> interesting f (es ! j)}"
  by (auto simp: otherIndexes_def sorted_wrt_filter)

lemma selection_sorted:
  fixes f es m
  defines "A \<equiv> take m (interestingIndexes f es)"
    and "B \<equiv> take (m - length (interestingIndexes f es)) (otherIndexes f es)"
  shows "length (sort (A @ B)) \<le> m"
    and "sorted_wrt (<) (sort (A @ B))"
    and "set (sort (A @ B)) \<subseteq> {..<length es}"
    and "filter (\<lambda>j. interesting f (es ! j)) (sort (A @ B)) = A"
    and "filter (\<lambda>j. \<not> interesting f (es ! j)) (sort (A @ B)) = B"
proof -
  let ?P = "\<lambda>j. interesting f (es ! j)"
  have setA: "set A \<subseteq> {j. j < length es \<and> ?P j}"
    unfolding A_def using set_take_subset [of m "interestingIndexes f es"]
    by (simp add: interestingIndexes_sorted(3))
  have setB: "set B \<subseteq> {j. j < length es \<and> \<not> ?P j}"
    unfolding B_def
    using set_take_subset [of "m - length (interestingIndexes f es)" "otherIndexes f es"]
    by (simp add: otherIndexes_sorted(3))
  have sA: "sorted A" unfolding A_def by (simp add: interestingIndexes_sorted(1) sorted_wrt_take)
  have sB: "sorted B" unfolding B_def by (simp add: otherIndexes_sorted(1) sorted_wrt_take)
  have dA: "distinct A" unfolding A_def by (simp add: interestingIndexes_sorted(2))
  have dB: "distinct B" unfolding B_def by (simp add: otherIndexes_sorted(2))
  have disj: "set A \<inter> set B = {}" using setA setB by blast
  show "length (sort (A @ B)) \<le> m"
    unfolding A_def B_def by simp
  have "distinct (sort (A @ B))" using dA dB disj by simp
  then show "sorted_wrt (<) (sort (A @ B))"
    by (simp add: strict_sorted_iff)
  show "set (sort (A @ B)) \<subseteq> {..<length es}" using setA setB by auto
  have fA: "filter ?P A = A" "filter (\<lambda>j. \<not> ?P j) A = []"
    using setA by (auto simp: filter_id_conv filter_empty_conv)
  have fB: "filter ?P B = []" "filter (\<lambda>j. \<not> ?P j) B = B"
    using setB by (auto simp: filter_id_conv filter_empty_conv)
  have "filter ?P (sort (A @ B)) = sort (filter ?P (A @ B))"
    by (rule filter_sort)
  then show "filter ?P (sort (A @ B)) = A" using fA fB sA by (simp add: sorted_sort_id)
  have "filter (\<lambda>j. \<not> ?P j) (sort (A @ B)) = sort (filter (\<lambda>j. \<not> ?P j) (A @ B))"
    by (rule filter_sort)
  then show "filter (\<lambda>j. \<not> ?P j) (sort (A @ B)) = B" using fA fB sB by (simp add: sorted_sort_id)
qed

lemma entriesIterator_shown:
  assumes "entriesIterator props object m = Inr els"
  shows "shownEntries els =
           map (\<lambda>j. shownEntry (entriesOf object ! j))
             (sort (take m (interestingIndexes (filterOf props) (entriesOf object))
                    @ take (m - length (interestingIndexes (filterOf props) (entriesOf object)))
                        (otherIndexes (filterOf props) (entriesOf object))))"
proof -
  from assms obtain obj where obj: "object = Some obj"
    by (cases object) (auto simp: entriesIterator_def)
  let ?es = "mapEntriesOf obj" and ?f = "filterOf props"
  from assms obj obtain idxs entries where idxs: "selectIndexes ?f ?es m = Inr idxs"
    and entries: "getEntries ?es idxs = Inr entries"
    and els: "els = (if length entries < length ?es
                     then entries @ [Caption (int (length ?es) - int m)] else entries)"
    by (auto simp: entriesIterator_def Let_def split: sum.splits if_splits)
  have shown: "shownEntries entries = map (\<lambda>j. shownEntry (?es ! j)) (sort idxs)"
    using mapIndexes_shown [of ?es "length (sort idxs)" 0 "sort idxs" entries] entries
    by (simp add: getEntries_def Let_def)
  have app: "\<And>xs ys. shownEntries (xs @ ys) = shownEntries xs @ shownEntries ys"
  proof -
    fix xs ys :: "element list"
    show "shownEntries (xs @ ys) = shownEntries xs @ shownEntries ys"
      by (induction xs rule: shownEntries.induct) simp_all
  qed
  have "shownEntries els = shownEntries entries" using els by (simp add: app)
  with shown selectIndexes_result [OF idxs] obj show ?thesis by (simp add: entriesOf_def)
qed


lemma default_filter_primitives:
  assumes "isInterestingEntry props = None"
  shows "interesting (filterOf props) (k, JBool b)"
    and "interesting (filterOf props) (k, JNumber n)"
    and "interesting (filterOf props) (k, JString s) \<longleftrightarrow> s \<noteq> []"
    and "\<not> interesting (filterOf props) (k, JNull)"
    and "\<not> interesting (filterOf props) (k, JUndefined)"
  using assms
  by (auto simp: interesting_def filterOf_def applyFilter_def entryValue_def entryType_def
      getValue_def getClass_def toLowerCase_def lowerChar_def defaultIsInterestingEntry_def
      getLength_def notEqualZero_def)

lemma reduceIndexes_returns:
  "\<forall>ke\<in>set es. \<exists>b. applyFilter f ke = Inr b \<Longrightarrow> \<exists>r. reduceIndexes f m es i acc = Inr r"
proof (induction es arbitrary: i acc)
  case Nil
  then show ?case by simp
next
  case (Cons ke es)
  then obtain b where b: "applyFilter f ke = Inr b" by auto
  have rest: "\<forall>ke\<in>set es. \<exists>b. applyFilter f ke = Inr b" using Cons.prems by simp
  show ?case
    using b Cons.IH [OF rest] by simp
qed

lemma shownValue_returns:
  "x \<noteq> JNull \<Longrightarrow> x \<noteq> JUndefined \<Longrightarrow> \<exists>v. shownValue x = Inr v"
  by (cases x) (simp_all add: shownValue_def getValue_def)

lemma mapIndexes_returns:
  "\<forall>j\<in>set idxs. j < length es \<and> snd (es ! j) \<noteq> JNull \<and> snd (es ! j) \<noteq> JUndefined
     \<Longrightarrow> \<exists>els. mapIndexes es len i idxs = Inr els"
proof (induction idxs arbitrary: i)
  case Nil
  then show ?case by simp
next
  case (Cons j idxs)
  then obtain v where v: "shownValue (snd (es ! j)) = Inr v"
    using shownValue_returns [of "snd (es ! j)"] by auto
  from Cons obtain rest where "mapIndexes es len (i + 1) idxs = Inr rest"
    by fastforce
  with v Cons.prems show ?case by simp
qed

lemma selectIndexes_returns:
  assumes "\<forall>ke\<in>set es. \<exists>b. applyFilter f ke = Inr b"
  shows "\<exists>r. selectIndexes f es m = Inr r"
proof -
  obtain a where a: "getEntriesIndexes es m f = Inr a"
    using reduceIndexes_returns [OF assms, of m 0 "[]"] by (auto simp: getEntriesIndexes_def)
  have "\<forall>ke\<in>set es. \<exists>b. applyFilter (negateFilter f) ke = Inr b"
  proof
    fix ke assume "ke \<in> set es"
    with assms obtain b where "applyFilter f ke = Inr b" by blast
    then have "applyFilter (negateFilter f) ke = Inr (\<not> b)"
      by (auto simp: applyFilter_def negateFilter_def split: sum.splits)
    then show "\<exists>b. applyFilter (negateFilter f) ke = Inr b" by blast
  qed
  then obtain b where "getEntriesIndexes es (m - length a) (negateFilter f) = Inr b"
    using reduceIndexes_returns [of es "negateFilter f" "m - length a" 0 "[]"]
    by (auto simp: getEntriesIndexes_def)
  with a show ?thesis by (simp add: selectIndexes_def)
qed

text \<open>
  What the renderer shows by design.  When the filter throws for no entry of the map
  and no entry has the value \<open>null\<close> or \<open>undefined\<close>, \<open>entriesIterator\<close> returns.
  It shows \<open>max\<close> entries, or all of them when the map has fewer, in their original
  order: the first \<open>max\<close> interesting entries and, when there are fewer of those, the
  first of the others for the slots left.
\<close>

lemma entriesIterator_selection:
  fixes props obj m errors
  defines "es \<equiv> mapEntriesOf obj" and "f \<equiv> filterOf props"
  assumes total: "\<forall>ke\<in>set es. \<exists>b. applyFilter f ke = Inr b"
    and nonnull: "\<forall>ke\<in>set es. snd ke \<noteq> JNull \<and> snd ke \<noteq> JUndefined"
  shows "\<exists>els shown.
     entriesIterator props (Some obj) m = Inr els
     \<and> safeEntriesIterator props (Some obj) (Some m) errors = (Inr els, errors)
     \<and> shownEntries els = map (\<lambda>j. shownEntry (es ! j)) shown
     \<and> length shown = min m (length es)
     \<and> sorted_wrt (<) shown
     \<and> set shown \<subseteq> {..<length es}
     \<and> filter (\<lambda>j. interesting f (es ! j)) shown = take m (interestingIndexes f es)
     \<and> filter (\<lambda>j. \<not> interesting f (es ! j)) shown
         = take (m - length (interestingIndexes f es)) (otherIndexes f es)"
proof -
  let ?I = "interestingIndexes f es" and ?O = "otherIndexes f es"
  let ?A = "take m ?I" and ?B = "take (m - length ?I) ?O"
  let ?S = "sort (?A @ ?B)"
  obtain r where r: "selectIndexes f es m = Inr r"
    using selectIndexes_returns [OF total] by blast
  have r_eq: "r = ?A @ ?B" using selectIndexes_result [OF r] .
  have rng: "set ?S \<subseteq> {..<length es}"
    using selection_sorted(3) [where f = f and es = es and m = m] .
  have "\<forall>j\<in>set ?S. j < length es \<and> snd (es ! j) \<noteq> JNull \<and> snd (es ! j) \<noteq> JUndefined"
  proof
    fix j assume "j \<in> set ?S"
    with rng have j: "j < length es" by auto
    then have "es ! j \<in> set es" by simp
    with nonnull j show "j < length es \<and> snd (es ! j) \<noteq> JNull \<and> snd (es ! j) \<noteq> JUndefined"
      by blast
  qed
  then obtain entries where entries: "mapIndexes es (length ?S) 0 ?S = Inr entries"
    using mapIndexes_returns by blast
  then have ge: "getEntries es r = Inr entries"
    by (simp add: getEntries_def Let_def r_eq)
  have "\<exists>els. entriesIterator props (Some obj) m = Inr els"
    using r ge by (simp add: entriesIterator_def Let_def es_def [symmetric] f_def [symmetric])
  then obtain els where els: "entriesIterator props (Some obj) m = Inr els" by blast
  have safe: "safeEntriesIterator props (Some obj) (Some m) errors = (Inr els, errors)"
    using els by (simp add: safeEntriesIterator_def)
  have shown: "shownEntries els = map (\<lambda>j. shownEntry (es ! j)) ?S"
    using entriesIterator_shown [OF els] by (simp add: es_def f_def entriesOf_def)
  have lenIO: "length ?I + length ?O = length es"
    using sum_length_filter_compl [of "\<lambda>i. interesting f (es ! i)" "[0..<length es]"]
    by (simp add: interestingIndexes_def otherIndexes_def)
  have "length ?S = min m (length ?I) + min (m - length ?I) (length ?O)"
    by (simp add: min.commute)
  also have "\<dots> = min m (length es)"
    using lenIO by linarith
  finally have len: "length ?S = min m (length es)" .
  have srt: "sorted_wrt (<) ?S"
    and fP: "filter (\<lambda>j. interesting f (es ! j)) ?S = ?A"
    and fN: "filter (\<lambda>j. \<not> interesting f (es ! j)) ?S = ?B"
    using selection_sorted [where f = f and es = es and m = m] by blast+
  show ?thesis
    using els safe shown len srt rng fP fN
    by (intro exI [of _ els] exI [of _ ?S]) simp
qed


text \<open>
  C4.  \<open>safeEntriesIterator\<close> returns an array for every grip and limit; when
  \<open>entriesIterator\<close> throws, the error is written to the console and the array is
  empty.
\<close>

theorem safeEntriesIterator_catches:
  "(\<exists>r errors'. safeEntriesIterator props object maxArg errors = (Inr r, errors'))
   \<and> (\<forall>err. entriesIterator props object (case maxArg of None \<Rightarrow> 3 | Some n \<Rightarrow> n) = Inl err
        \<longrightarrow> safeEntriesIterator props object maxArg errors = (Inr [], errors @ [err]))"
  by (auto simp: safeEntriesIterator_def split: sum.splits)

lemma sample_run:
  "entriesIterator defaultProps (Some sampleMap) 4 =
     Inr [PropRep (JString ''a'') (JString []) '', '', PropRep (JString ''b'') (JBool True) '', '',
          PropRep (JString ''c'') (JNumber 1) '', '', PropRep (JString ''d'') (JString ''x'') '', '',
          Caption 1]"
  by code_simp

lemma null_run:
  "entriesIterator defaultProps (Some nullValueMap) 3 = Inl (TypeError ''null has no properties'')"
  by code_simp


theorem safeEntriesIterator_catches_witness:
  "safeEntriesIterator defaultProps (Some nullValueMap) None []
     = (Inr [], [TypeError ''null has no properties''])"
  using safeEntriesIterator_catches [of defaultProps "Some nullValueMap" None "[]"] null_run
  by simp


section \<open>Properties of the property tree\<close>


lemma sortProperties_length: "length (sortProperties ps) = length ps"
proof -
  have "length (filter (\<lambda>p. fst p = []) ps)
          + length (filter (\<lambda>p. isNumericKey (fst p)) ps)
          + length (filter (\<lambda>p. fst p \<noteq> [] \<and> \<not> isNumericKey (fst p)) ps) = length ps"
    by (induction ps) (auto simp: isNumericKey_def)
  then show ?thesis by (simp add: sortProperties_def)
qed

lemma sortProperties_set: "set (sortProperties ps) = set ps"
  by (auto simp: sortProperties_def isNumericKey_def)

lemma sortProperties_parts:
  "\<exists>empties numeric others. sortProperties ps = empties @ numeric @ others
     \<and> list_all (\<lambda>p. fst p = []) empties
     \<and> list_all (\<lambda>p. isNumericKey (fst p)) numeric
     \<and> list_all (\<lambda>p. fst p \<noteq> [] \<and> \<not> isNumericKey (fst p)) others
     \<and> sorted (map (\<lambda>p. numericValue (fst p)) numeric)
     \<and> sorted (map fst others)"
  unfolding sortProperties_def
  by (intro exI conjI, rule refl) (simp_all add: list_all_iff)

lemma filter_parts:
  assumes "list_all (\<lambda>p. fst p = []) empties"
    and "list_all (\<lambda>p. isNumericKey (fst p)) numeric"
    and "list_all (\<lambda>p. fst p \<noteq> [] \<and> \<not> isNumericKey (fst p)) others"
    and "sorted (map (\<lambda>p. numericValue (fst p)) numeric)"
    and "sorted (map fst others)"
  shows "list_all (\<lambda>p. fst p = []) (filter Q empties)
     \<and> list_all (\<lambda>p. isNumericKey (fst p)) (filter Q numeric)
     \<and> list_all (\<lambda>p. fst p \<noteq> [] \<and> \<not> isNumericKey (fst p)) (filter Q others)
     \<and> sorted (map (\<lambda>p. numericValue (fst p)) (filter Q numeric))
     \<and> sorted (map fst (filter Q others))"
  using assms by (simp add: list_all_iff sorted_filter)

lemma propertyNode_isPropertyNode: "filter isPropertyNode (map (propertyNode path) ps) = map (propertyNode path) ps"
  by (induction ps) (simp_all add: propertyNode_def)

lemma buckets_not_property: "filter isPropertyNode (makeNumericalBuckets ps s path) = []"
  by (simp add: makeNumericalBuckets_def numericalBucket_def Let_def filter_empty_conv)

lemma protoPart_not_property:
  "filter isPropertyNode (case proto of None \<Rightarrow> [] | Some p \<Rightarrow> [prototypeNode path p]) = []"
  by (simp add: prototypeNode_def split: option.splits)

lemma defaultBucket_property:
  "filter isPropertyNode (makeDefaultPropsBucket w ps parent)
     = map (propertyNode (nodePath parent)) (filter (\<lambda>p. \<not> isDefault w (fst p) [parent]) ps)"
  by (simp add: makeDefaultPropsBucket_def Let_def makeNodesForOwnProps_def
      propertyNode_isPropertyNode)

text \<open>
  C5.  Among the nodes that \<open>makeNodesForProperties\<close> returns, the nodes of own
  properties come as the empty key, when there is one, then the
  numeric-looking keys, ascending by their numeric value, then the other keys,
  ascending in lexicographic order; they are own properties that are shown, all of
  them when the root is not a window and the object is not a bucketed array; and when
  the object has a prototype the last node is the \<open>__proto__\<close> node.
\<close>

theorem makeNodesForProperties_sorted:
  fixes w objProps parent
  defines "nodes \<equiv> makeNodesForProperties w objProps parent"
  shows "\<exists>empties numeric others.
      filter isPropertyNode nodes
        = map (propertyNode (nodePath parent)) (empties @ numeric @ others)
      \<and> list_all (\<lambda>p. fst p = []) empties
      \<and> list_all (\<lambda>p. isNumericKey (fst p)) numeric
      \<and> list_all (\<lambda>p. fst p \<noteq> [] \<and> \<not> isNumericKey (fst p)) others
      \<and> sorted (map (\<lambda>p. numericValue (fst p)) numeric)
      \<and> sorted (map fst others)
      \<and> set (empties @ numeric @ others) \<subseteq> set (filter isDisplayed (ownProperties objProps))
      \<and> (\<not> isWindow parent
           \<and> \<not> (nodeIsArray (prototype objProps)
                  \<and> length (filter isDisplayed (ownProperties objProps)) > bucketSize)
           \<longrightarrow> set (empties @ numeric @ others)
                 = set (filter isDisplayed (ownProperties objProps))
               \<and> length (empties @ numeric @ others)
                 = length (filter isDisplayed (ownProperties objProps)))
      \<and> (\<forall>proto. prototype objProps = Some proto \<longrightarrow>
            nodes \<noteq> [] \<and> last nodes = prototypeNode (nodePath parent) proto)"
proof -
  let ?ps = "filter isDisplayed (ownProperties objProps)"
  let ?path = "nodePath parent"
  let ?bucketed = "nodeIsArray (prototype objProps) \<and> length ?ps > bucketSize"
  have lastp: "\<forall>proto. prototype objProps = Some proto \<longrightarrow>
            nodes \<noteq> [] \<and> last nodes = prototypeNode ?path proto"
    by (simp add: nodes_def makeNodesForProperties_def Let_def)
  show ?thesis
  proof (cases ?bucketed)
    case True
    then have "filter isPropertyNode nodes = []"
      by (simp add: nodes_def makeNodesForProperties_def Let_def sortProperties_length
          buckets_not_property protoPart_not_property)
    then have "filter isPropertyNode nodes = map (propertyNode ?path) ([] @ [] @ [])" by simp
    with lastp True show ?thesis
      by (intro exI [of _ "[]"]) simp
  next
    case False
    obtain empties numeric others where so: "sortProperties ?ps = empties @ numeric @ others"
      and p0: "list_all (\<lambda>p. fst p = []) empties"
      and p1: "list_all (\<lambda>p. isNumericKey (fst p)) numeric"
      and p2: "list_all (\<lambda>p. fst p \<noteq> [] \<and> \<not> isNumericKey (fst p)) others"
      and p3: "sorted (map (\<lambda>p. numericValue (fst p)) numeric)"
      and p4: "sorted (map fst others)"
      using sortProperties_parts [of ?ps] by blast
    let ?Q = "\<lambda>p. \<not> isDefault w (fst p) [parent]"
    let ?shown = "filter ?Q empties @ filter ?Q numeric @ filter ?Q others"
    have "filter isPropertyNode nodes = map (propertyNode ?path) (filter ?Q (sortProperties ?ps))"
      using False
      by (auto simp: nodes_def makeNodesForProperties_def Let_def sortProperties_length
          defaultBucket_property protoPart_not_property)
    then have shape: "filter isPropertyNode nodes = map (propertyNode ?path) ?shown"
      by (simp add: so)
    have sub: "set ?shown \<subseteq> set ?ps"
      using sortProperties_set [of ?ps] so by auto
    have all: "\<not> isWindow parent \<longrightarrow> ?shown = sortProperties ?ps"
      by (simp add: so isDefault_def)
    have full: "\<not> isWindow parent \<and> \<not> ?bucketed \<longrightarrow>
           set ?shown = set ?ps \<and> length ?shown = length ?ps"
      using all sortProperties_set [of ?ps] sortProperties_length [of ?ps] by metis
    show ?thesis
      using shape filter_parts [OF p0 p1 p2 p3 p4, of ?Q] sub full lastp
      by (intro exI [of _ "filter ?Q empties"] exI [of _ "filter ?Q numeric"]
          exI [of _ "filter ?Q others"]) blast
  qed
qed

lemma ceil_bounds:
  fixes n :: nat
  assumes "100 < n"
  shows "100 * ((n + 99) div 100 - 1) < n" and "n \<le> 100 * ((n + 99) div 100)"
    and "1 < (n + 99) div 100"
proof -
  let ?N = "(n + 99) div 100"
  have up: "n + 99 < 100 + ?N * 100"
    using dividend_less_div_times [of 100 "n + 99"] by simp
  have lo: "?N * 100 \<le> n + 99"
    by (rule div_times_less_eq_dividend)
  from up assms show gt: "1 < ?N" by linarith
  from lo gt show "100 * (?N - 1) < n" by linarith
  from up show "n \<le> 100 * ?N" by linarith
qed

lemma bucket_size:
  fixes n i :: nat
  assumes "100 < n" and "i < (n + 99) div 100"
  shows "min 100 (n - i * 100)
           = (if i + 1 < (n + 99) div 100 then 100 else n - 100 * ((n + 99) div 100 - 1))"
proof -
  define N where "N = (n + 99) div 100"
  have b: "100 * (N - 1) < n" "n \<le> 100 * N" "1 < N"
    using ceil_bounds [OF assms(1)] by (simp_all add: N_def)
  have i: "i < N" using assms(2) by (simp add: N_def)
  have "min 100 (n - i * 100) = (if i + 1 < N then 100 else n - 100 * (N - 1))"
  proof (cases "i + 1 < N")
    case True
    then have "i + 1 \<le> N - 1" by simp
    then have "100 * (i + 1) \<le> 100 * (N - 1)" by (rule mult_le_mono2)
    with b(1) have "100 \<le> n - i * 100" by simp
    with True show ?thesis by simp
  next
    case False
    with i have eq: "i = N - 1" by simp
    have "n - 100 * (N - 1) \<le> 100" using b(2) b(3) by (simp add: diff_mult_distrib2)
    with False eq show ?thesis by (simp add: mult.commute)
  qed
  then show ?thesis by (simp add: N_def)
qed


lemma chunks_concat:
  "concat (map (\<lambda>i. take s (drop (i * s) xs)) [0..<N]) = take (N * s) xs"
proof (induction N)
  case 0
  then show ?case by simp
next
  case (Suc N)
  have "take (Suc N * s) xs = take (N * s) xs @ take s (drop (N * s) xs)"
    using take_add [of "N * s" s xs] by (simp add: add.commute)
  with Suc show ?case by simp
qed

lemma buckets_shift:
  "makeNumericalBuckets props s path
     = map (\<lambda>i. numericalBucket props s path (Suc i)) [0..<(length props + s - 1) div s]"
proof -
  have "[1..<Suc ((length props + s - 1) div s)] = map Suc [0..<(length props + s - 1) div s]"
    using map_Suc_upt [of 0 "(length props + s - 1) div s"] by simp
  then show ?thesis by (simp add: makeNumericalBuckets_def comp_def)
qed

lemma numericalBucket_fields:
  "nodePath (numericalBucket props s path (Suc i)) = path @ ''/bucket'' @ showNat (Suc i)"
  "map nodeName (childNodes (numericalBucket props s path (Suc i)))
     = map (\<lambda>p. maybeEscapePropertyName (fst p)) (take s (drop (i * s) props))"
  "map nodePath (childNodes (numericalBucket props s path (Suc i)))
     = map (\<lambda>p. path @ ''/bucket'' @ showNat (Suc i) @ ''/'' @ fst p) (take s (drop (i * s) props))"
  by (simp_all add: numericalBucket_def Let_def makeNodesForOwnProps_def propertyNode_def comp_def)

text \<open>
  C6.  For an object whose prototype is an array and that has more than 100 shown own
  properties, \<open>makeNodesForProperties\<close> returns one node per bucket followed by the
  \<open>__proto__\<close> node: the number of buckets is the count divided by 100, rounded up;
  bucket \<open>i\<close> has the path \<open>parent/bucket\<close>\<open>i\<close> and holds the 100 consecutive
  sorted properties from position \<open>100 (i - 1)\<close>, the last bucket the one to 100
  properties that are left; together the buckets hold every property once, in order.
\<close>

theorem makeNodesForProperties_buckets:
  fixes w objProps parent
  defines "props \<equiv> sortProperties (filter isDisplayed (ownProperties objProps))"
  defines "n \<equiv> length (filter isDisplayed (ownProperties objProps))"
  defines "N \<equiv> (n + 99) div 100"
  assumes array: "nodeIsArray (prototype objProps)" and large: "100 < n"
  shows "\<exists>buckets proto.
      makeNodesForProperties w objProps parent = buckets @ [prototypeNode (nodePath parent) proto]
      \<and> prototype objProps = Some proto
      \<and> length buckets = N
      \<and> (\<forall>i<N. nodePath (buckets ! i) = nodePath parent @ ''/bucket'' @ showNat (i + 1)
            \<and> map nodeName (childNodes (buckets ! i))
                = map (\<lambda>p. maybeEscapePropertyName (fst p)) (take 100 (drop (i * 100) props))
            \<and> length (childNodes (buckets ! i)) = (if i + 1 < N then 100 else n - 100 * (N - 1)))
      \<and> 0 < n - 100 * (N - 1) \<and> n - 100 * (N - 1) \<le> 100
      \<and> concat (map (\<lambda>b. map nodeName (childNodes b)) buckets)
          = map (\<lambda>p. maybeEscapePropertyName (fst p)) props"
proof -
  let ?path = "nodePath parent"
  let ?buckets = "makeNumericalBuckets props bucketSize ?path"
  have len: "length props = n" by (simp add: props_def n_def sortProperties_length)
  from array obtain proto where proto: "prototype objProps = Some proto"
    by (auto simp: nodeIsArray_def split: option.splits)
  have nodes: "makeNodesForProperties w objProps parent = ?buckets @ [prototypeNode ?path proto]"
    using array large proto
    by (simp add: makeNodesForProperties_def Let_def bucketSize_def sortProperties_length
        props_def n_def)
  have shift: "?buckets = map (\<lambda>i. numericalBucket props 100 ?path (Suc i)) [0..<N]"
    using buckets_shift [of props 100 ?path] by (simp add: bucketSize_def len N_def add.commute)
  have blen: "length ?buckets = N" by (simp add: shift)
  have cb: "100 * (N - 1) < n" "n \<le> 100 * N" "1 < N"
    using ceil_bounds [OF large] by (simp_all add: N_def)
  have last_size: "0 < n - 100 * (N - 1)" "n - 100 * (N - 1) \<le> 100"
    using cb by (simp_all add: diff_mult_distrib2)
  have each: "\<forall>i<N. nodePath (?buckets ! i) = ?path @ ''/bucket'' @ showNat (i + 1)
            \<and> map nodeName (childNodes (?buckets ! i))
                = map (\<lambda>p. maybeEscapePropertyName (fst p)) (take 100 (drop (i * 100) props))
            \<and> length (childNodes (?buckets ! i)) = (if i + 1 < N then 100 else n - 100 * (N - 1))"
  proof (intro allI impI)
    fix i assume i: "i < N"
    have b: "?buckets ! i = numericalBucket props 100 ?path (Suc i)"
      using i by (simp add: shift)
    have names: "map nodeName (childNodes (?buckets ! i))
                = map (\<lambda>p. maybeEscapePropertyName (fst p)) (take 100 (drop (i * 100) props))"
      unfolding b by (rule numericalBucket_fields(2))
    have "length (childNodes (?buckets ! i)) = length (map nodeName (childNodes (?buckets ! i)))"
      by simp
    also have "\<dots> = min 100 (n - i * 100)"
      unfolding names by (simp add: len min.commute)
    also have "\<dots> = (if i + 1 < N then 100 else n - 100 * (N - 1))"
      using bucket_size [OF large, of i] i unfolding N_def by simp
    finally have sz: "length (childNodes (?buckets ! i))
                        = (if i + 1 < N then 100 else n - 100 * (N - 1))" .
    show "nodePath (?buckets ! i) = ?path @ ''/bucket'' @ showNat (i + 1)
            \<and> map nodeName (childNodes (?buckets ! i))
                = map (\<lambda>p. maybeEscapePropertyName (fst p)) (take 100 (drop (i * 100) props))
            \<and> length (childNodes (?buckets ! i)) = (if i + 1 < N then 100 else n - 100 * (N - 1))"
      using names sz unfolding b by (simp add: numericalBucket_fields(1))
  qed
  have "concat (map (\<lambda>b. map nodeName (childNodes b)) ?buckets)
          = concat (map (\<lambda>i. map (\<lambda>p. maybeEscapePropertyName (fst p))
                                (take 100 (drop (i * 100) props))) [0..<N])"
    by (simp add: shift comp_def numericalBucket_fields(2))
  also have "\<dots> = map (\<lambda>p. maybeEscapePropertyName (fst p))
                    (concat (map (\<lambda>i. take 100 (drop (i * 100) props)) [0..<N]))"
    by (simp add: map_concat comp_def)
  also have "\<dots> = map (\<lambda>p. maybeEscapePropertyName (fst p)) (take (N * 100) props)"
    by (simp only: chunks_concat)
  also have "take (N * 100) props = props"
  proof -
    have "n \<le> N * 100" using cb(2) by (simp add: mult.commute)
    then show ?thesis by (simp add: len)
  qed
  finally have cover: "concat (map (\<lambda>b. map nodeName (childNodes b)) ?buckets)
          = map (\<lambda>p. maybeEscapePropertyName (fst p)) props" .
  show ?thesis
    using nodes proto blen each last_size cover
    by (intro exI [of _ ?buckets] exI [of _ proto]) blast
qed

text \<open>
  C7.  When the properties of an object are listed (it is not a bucketed array): under
  a root whose value has the class \<open>Window\<close>, the own properties whose names are in
  the set of default properties have no node of their own in the list and are the
  children of one node \<open>[default properties]\<close>, which is there when there is such a
  property; under any other root every shown own property has its own node.
  \<open>isDefault\<close> holds only of a name in the set and a root of class \<open>Window\<close>.
\<close>

theorem makeNodesForProperties_default_bucket:
  fixes w objProps parent
  defines "props \<equiv> sortProperties (filter isDisplayed (ownProperties objProps))"
  defines "path \<equiv> nodePath parent"
  defines "protoPart \<equiv> (case prototype objProps of None \<Rightarrow> []
                          | Some proto \<Rightarrow> [prototypeNode (nodePath parent) proto])"
  assumes listed: "\<not> (nodeIsArray (prototype objProps) \<and> bucketSize < length props)"
  shows "(isWindow parent \<longrightarrow>
           makeNodesForProperties w objProps parent
             = map (propertyNode path) (filter (\<lambda>p. fst p \<notin> set w) props)
               @ (if filter (\<lambda>p. fst p \<in> set w) props \<noteq> [] then
                    [Node ''[default properties]'' (path @ ''/##-default'')
                       (NodeContents (map (propertyNode (path @ ''/##-default''))
                                        (filter (\<lambda>p. fst p \<in> set w) props)))]
                  else [])
               @ protoPart)
       \<and> (\<not> isWindow parent \<longrightarrow>
            makeNodesForProperties w objProps parent = map (propertyNode path) props @ protoPart)
       \<and> (\<forall>name roots. isDefault w name roots \<longrightarrow>
            name \<in> set w \<and> (\<exists>r others. roots = r # others \<and> isWindow r))
       \<and> (\<forall>name others. isDefault w name (parent # others) = (isWindow parent \<and> name \<in> set w))"
proof -
  have win: "isWindow parent \<longrightarrow>
           makeNodesForProperties w objProps parent
             = map (propertyNode path) (filter (\<lambda>p. fst p \<notin> set w) props)
               @ (if filter (\<lambda>p. fst p \<in> set w) props \<noteq> [] then
                    [Node ''[default properties]'' (path @ ''/##-default'')
                       (NodeContents (map (propertyNode (path @ ''/##-default''))
                                        (filter (\<lambda>p. fst p \<in> set w) props)))]
                  else [])
               @ protoPart"
  proof
    assume "isWindow parent"
    then have d: "\<And>name. isDefault w name [parent] = (name \<in> set w)"
      by (simp add: isDefault_def)
    show "makeNodesForProperties w objProps parent
             = map (propertyNode path) (filter (\<lambda>p. fst p \<notin> set w) props)
               @ (if filter (\<lambda>p. fst p \<in> set w) props \<noteq> [] then
                    [Node ''[default properties]'' (path @ ''/##-default'')
                       (NodeContents (map (propertyNode (path @ ''/##-default''))
                                        (filter (\<lambda>p. fst p \<in> set w) props)))]
                  else [])
               @ protoPart"
      using listed unfolding props_def path_def protoPart_def
      by (auto simp: makeNodesForProperties_def Let_def makeDefaultPropsBucket_def d
          makeNodesForOwnProps_def)
  qed
  have nowin: "\<not> isWindow parent \<longrightarrow>
            makeNodesForProperties w objProps parent = map (propertyNode path) props @ protoPart"
  proof
    assume "\<not> isWindow parent"
    then have d: "\<And>name. isDefault w name [parent] = False"
      by (simp add: isDefault_def)
    show "makeNodesForProperties w objProps parent = map (propertyNode path) props @ protoPart"
      using listed unfolding props_def path_def protoPart_def
      by (auto simp: makeNodesForProperties_def Let_def makeDefaultPropsBucket_def d
          makeNodesForOwnProps_def)
  qed
  have only: "\<forall>name roots. isDefault w name roots \<longrightarrow>
            name \<in> set w \<and> (\<exists>r others. roots = r # others \<and> isWindow r)"
  proof (intro allI impI)
    fix name roots assume "isDefault w name roots"
    then show "name \<in> set w \<and> (\<exists>r others. roots = r # others \<and> isWindow r)"
      by (cases roots) (simp_all add: isDefault_def)
  qed
  have iff: "\<forall>name others. isDefault w name (parent # others) = (isWindow parent \<and> name \<in> set w)"
    by (simp add: isDefault_def)
  from win nowin only iff show ?thesis by blast
qed


text \<open>The model returns the names and paths that the tests of the test file expect.\<close>

lemma test_kitchen_sink:
  "map nodeName (makeNodesForProperties [''location''] kitchenSink root)
     = [''0'', ''length'', ''__proto__'']"
  "map nodePath (makeNodesForProperties [''location''] kitchenSink root)
     = [''root/0'', ''root/length'', ''root/__proto__'']"
  by code_simp+

lemma test_getters_and_setters:
  "map nodeName (makeNodesForProperties [''location''] accessors root)
     = [''bar'', ''baz'', ''foo'', ''__proto__'']"
  "map nodePath (makeNodesForProperties [''location''] accessors root)
     = [''root/bar'', ''root/baz'', ''root/foo'', ''root/__proto__'']"
  by code_simp+

lemma test_sorts_keys:
  "map nodeName (makeNodesForProperties [''location''] unsortedKeys root)
     = [''1'', ''2'', ''11'', ''_bar'', ''bar'', ''__proto__'']"
  "map nodePath (makeNodesForProperties [''location''] unsortedKeys root)
     = [''root/1'', ''root/2'', ''root/11'', ''root/_bar'', ''root/bar'', ''root/__proto__'']"
  by code_simp+

lemma test_window_object:
  "map nodeName (makeNodesForProperties [''location''] windowObject windowRoot)
     = [''bar'', ''[default properties]'']"
  "map nodePath (makeNodesForProperties [''location''] windowObject windowRoot)
     = [''root/bar'', ''root/##-default'']"
  by code_simp+

lemma test_window_prop_on_normal_object:
  "isDefault [''location''] ''location'' [windowRoot]"
  "\<not> isDefault [''location''] ''location'' [objectRoot]"
  by code_simp+

lemma largeArray_length: "length (filter isDisplayed (ownProperties largeArray)) = 331"
proof -
  have "filter isDisplayed (map (\<lambda>i. (showNat i, valueDesc)) xs)
          = map (\<lambda>i. (showNat i, valueDesc)) xs" for xs :: "nat list"
    by (induction xs) (simp_all add: isDisplayed_def valueDesc_def)
  moreover have "ownProperties largeArray = map (\<lambda>i. (showNat i, valueDesc)) [0..<331]"
    by (simp only: largeArray_def objectProperties.simps)
  ultimately have "length (filter isDisplayed (ownProperties largeArray)) = length [0..<331::nat]"
    by (simp only: length_map)
  then show ?thesis by (simp only: length_upt)
qed

lemma largeArray_prototype: "prototype largeArray = Some (JGrip (JString ''Array'') JUndefined)"
  by (simp add: largeArray_def protoOfClass_def)

lemma bucket_names:
  "map nodeName (makeNumericalBuckets props s path)
     = map (\<lambda>i. ''['' @ showNat ((i - 1) * s) @ ''..'' @ showNat (min (i * s - 1) (length props))
                  @ '']'')
         [1..<Suc ((length props + s - 1) div s)]"
  by (simp add: makeNumericalBuckets_def numericalBucket_def Let_def comp_def)

lemma bucket_paths:
  "map nodePath (makeNumericalBuckets props s path)
     = map (\<lambda>i. path @ ''/bucket'' @ showNat i) [1..<Suc ((length props + s - 1) div s)]"
  by (simp add: makeNumericalBuckets_def numericalBucket_def Let_def comp_def)

lemma showNat_values:
  "showNat 0 = ''0''" "showNat (Suc 0) = ''1''" "showNat 2 = ''2''" "showNat 3 = ''3''"
  "showNat 4 = ''4''" "showNat 99 = ''99''" "showNat 100 = ''100''" "showNat 199 = ''199''"
  "showNat 200 = ''200''" "showNat 299 = ''299''" "showNat 300 = ''300''" "showNat 331 = ''331''"
  by code_simp+

lemma test_numerical_buckets:
  "map nodeName (makeNodesForProperties w largeArray root)
     = [''[0..99]'', ''[100..199]'', ''[200..299]'', ''[300..331]'', ''__proto__'']"
  "map nodePath (makeNodesForProperties w largeArray root)
     = [''root/bucket1'', ''root/bucket2'', ''root/bucket3'', ''root/bucket4'', ''root/__proto__'']"
proof -
  let ?props = "sortProperties (filter isDisplayed (ownProperties largeArray))"
  have len: "length ?props = 331" by (simp add: sortProperties_length largeArray_length)
  have nodes: "makeNodesForProperties w largeArray root
      = makeNumericalBuckets ?props 100 ''root''
        @ [prototypeNode ''root'' (JGrip (JString ''Array'') JUndefined)]"
    by (simp add: makeNodesForProperties_def Let_def len largeArray_prototype nodeIsArray_def
        bucketSize_def root_def)
  have upt: "[1..<Suc ((331 + 100 - 1) div 100)] = [1, 2, 3, 4 :: nat]"
    by code_simp
  show "map nodeName (makeNodesForProperties w largeArray root)
     = [''[0..99]'', ''[100..199]'', ''[200..299]'', ''[300..331]'', ''__proto__'']"
    unfolding nodes map_append bucket_names len upt
    by (simp add: showNat_values prototypeNode_def)
  show "map nodePath (makeNodesForProperties w largeArray root)
     = [''root/bucket1'', ''root/bucket2'', ''root/bucket3'', ''root/bucket4'', ''root/__proto__'']"
    unfolding nodes map_append bucket_paths len upt
    by (simp add: showNat_values prototypeNode_def)
qed

lemma quotedKeys_sorted:
  "sortProperties (filter isDisplayed (ownProperties quotedKeys))
     = [([], valueDesc), (''332217'', valueDesc), (''needs-quotes'', valueDesc),
        (''unquoted'', valueDesc)]"
proof -
  let ?ps = "filter isDisplayed (ownProperties quotedKeys)"
  have empt: "filter (\<lambda>p. fst p = []) ?ps = [([], valueDesc)]"
    by code_simp
  have num: "filter (\<lambda>p. isNumericKey (fst p)) ?ps = [(''332217'', valueDesc)]"
    by code_simp
  have others: "sort_key fst (filter (\<lambda>p. fst p \<noteq> [] \<and> \<not> isNumericKey (fst p)) ?ps)
                  = [(''needs-quotes'', valueDesc), (''unquoted'', valueDesc)]"
    by code_simp
  show ?thesis
    unfolding sortProperties_def empt num others by simp
qed

lemma test_quotes_property_names:
  "map nodeName (makeNodesForProperties [''location''] quotedKeys root)
     = [[CHR 0x22, CHR 0x22], ''332217'', CHR 0x22 # ''needs-quotes'' @ [CHR 0x22],
        ''unquoted'', ''__proto__'']"
  "map nodePath (makeNodesForProperties [''location''] quotedKeys root)
     = [''root/'', ''root/332217'', ''root/needs-quotes'', ''root/unquoted'', ''root/__proto__'']"
proof -
  have p: "prototype quotedKeys = Some (JGrip (JString ''WindowPrototype'') JUndefined)"
    by (simp add: quotedKeys_def protoOfClass_def)
  have w: "\<not> isWindow root" by code_simp
  have nodes: "makeNodesForProperties [''location''] quotedKeys root
      = map (propertyNode ''root'')
          [([], valueDesc), (''332217'', valueDesc), (''needs-quotes'', valueDesc),
           (''unquoted'', valueDesc)]
        @ [prototypeNode ''root'' (JGrip (JString ''WindowPrototype'') JUndefined)]"
    unfolding makeNodesForProperties_def Let_def quotedKeys_sorted p
    by (simp add: nodeIsArray_def makeDefaultPropsBucket_def isDefault_def w
        makeNodesForOwnProps_def root_def Let_def)
  have names: "maybeEscapePropertyName [] = [CHR 0x22, CHR 0x22]"
    "maybeEscapePropertyName ''332217'' = ''332217''"
    "maybeEscapePropertyName ''needs-quotes'' = CHR 0x22 # ''needs-quotes'' @ [CHR 0x22]"
    "maybeEscapePropertyName ''unquoted'' = ''unquoted''"
    by code_simp+
  show "map nodeName (makeNodesForProperties [''location''] quotedKeys root)
     = [[CHR 0x22, CHR 0x22], ''332217'', CHR 0x22 # ''needs-quotes'' @ [CHR 0x22],
        ''unquoted'', ''__proto__'']"
    unfolding nodes by (simp add: propertyNode_def prototypeNode_def names)
  show "map nodePath (makeNodesForProperties [''location''] quotedKeys root)
     = [''root/'', ''root/332217'', ''root/needs-quotes'', ''root/unquoted'', ''root/__proto__'']"
    unfolding nodes by (simp add: propertyNode_def prototypeNode_def)
qed


theorem makeNodesForProperties_sorted_witness:
  "\<exists>empties numeric others.
      filter isPropertyNode (makeNodesForProperties [''location''] unsortedKeys root)
        = map (propertyNode ''root'') (empties @ numeric @ others)
      \<and> list_all (\<lambda>p. fst p = []) empties
      \<and> list_all (\<lambda>p. isNumericKey (fst p)) numeric
      \<and> list_all (\<lambda>p. fst p \<noteq> [] \<and> \<not> isNumericKey (fst p)) others
      \<and> sorted (map (\<lambda>p. numericValue (fst p)) numeric)
      \<and> sorted (map fst others)
      \<and> length (empties @ numeric @ others) = 5
      \<and> last (makeNodesForProperties [''location''] unsortedKeys root)
          = prototypeNode ''root'' (JGrip (JString ''bla'') JUndefined)"
proof -
  let ?nodes = "makeNodesForProperties [''location''] unsortedKeys root"
  let ?ps = "filter isDisplayed (ownProperties unsortedKeys)"
  have path: "nodePath root = ''root''" by (simp add: root_def)
  have proto: "prototype unsortedKeys = Some (JGrip (JString ''bla'') JUndefined)"
    by (simp add: unsortedKeys_def protoOfClass_def)
  have nowin: "\<not> isWindow root" by code_simp
  have noarr: "\<not> nodeIsArray (prototype unsortedKeys)" by code_simp
  have len: "length ?ps = 5" by code_simp
  from makeNodesForProperties_sorted [where w = "[''location'']" and objProps = unsortedKeys
      and parent = root]
  obtain empties numeric others where
    shape: "filter isPropertyNode ?nodes
              = map (propertyNode (nodePath root)) (empties @ numeric @ others)"
    and p0: "list_all (\<lambda>p. fst p = []) empties"
    and p1: "list_all (\<lambda>p. isNumericKey (fst p)) numeric"
    and p2: "list_all (\<lambda>p. fst p \<noteq> [] \<and> \<not> isNumericKey (fst p)) others"
    and p3: "sorted (map (\<lambda>p. numericValue (fst p)) numeric)"
    and p4: "sorted (map fst others)"
    and full: "\<not> isWindow root
           \<and> \<not> (nodeIsArray (prototype unsortedKeys) \<and> bucketSize < length ?ps)
           \<longrightarrow> set (empties @ numeric @ others) = set ?ps
               \<and> length (empties @ numeric @ others) = length ?ps"
    and lastp: "\<forall>proto. prototype unsortedKeys = Some proto \<longrightarrow>
            ?nodes \<noteq> [] \<and> last ?nodes = prototypeNode (nodePath root) proto"
    by (elim exE conjE) (rule that; assumption)
  from full nowin noarr len have l5: "length (empties @ numeric @ others) = 5" by simp
  from lastp proto path have lp: "last ?nodes = prototypeNode ''root'' (JGrip (JString ''bla'') JUndefined)"
    by simp
  from shape path p0 p1 p2 p3 p4 l5 lp show ?thesis
    by (intro exI [of _ empties] exI [of _ numeric] exI [of _ others]) simp
qed

text \<open>
  That every numeric-looking key precedes every other key fails at the object of the
  test \<open>quotes property names\<close>: the node of the empty key, which is not
  numeric-looking, stands before the node of the key 332217, which is.
\<close>

theorem makeNodesForProperties_sorted_counterexample:
  "map nodePath (makeNodesForProperties [''location''] quotedKeys root)
     = [''root/'', ''root/332217'', ''root/needs-quotes'', ''root/unquoted'', ''root/__proto__'']
   \<and> \<not> isNumericKey []
   \<and> isNumericKey ''332217''"
proof -
  have "\<not> isNumericKey []" and "isNumericKey ''332217''"
    by code_simp+
  with test_quotes_property_names(2) show ?thesis by simp
qed

theorem makeNodesForProperties_buckets_witness:
  "\<exists>buckets.
      makeNodesForProperties [''location''] largeArray root
        = buckets @ [prototypeNode ''root'' (JGrip (JString ''Array'') JUndefined)]
      \<and> length buckets = 4
      \<and> nodePath (buckets ! 0) = ''root/bucket1''
      \<and> nodePath (buckets ! 3) = ''root/bucket4''
      \<and> length (childNodes (buckets ! 0)) = 100
      \<and> length (childNodes (buckets ! 3)) = 31"
proof -
  let ?props = "sortProperties (filter isDisplayed (ownProperties largeArray))"
  have arr: "nodeIsArray (prototype largeArray)"
    by (simp add: largeArray_prototype nodeIsArray_def)
  have large: "100 < length (filter isDisplayed (ownProperties largeArray))"
    by (simp add: largeArray_length)
  have path: "nodePath root = ''root''" by (simp add: root_def)
  have N: "(length (filter isDisplayed (ownProperties largeArray)) + 99) div 100 = 4"
    by (simp add: largeArray_length)
  from makeNodesForProperties_buckets [OF arr large, where w = "[''location'']" and parent = root]
  obtain buckets proto where
    nodes: "makeNodesForProperties [''location''] largeArray root
              = buckets @ [prototypeNode (nodePath root) proto]"
    and pr: "prototype largeArray = Some proto"
    and blen: "length buckets = (length (filter isDisplayed (ownProperties largeArray)) + 99) div 100"
    and each: "\<forall>i<(length (filter isDisplayed (ownProperties largeArray)) + 99) div 100.
            nodePath (buckets ! i) = nodePath root @ ''/bucket'' @ showNat (i + 1)
            \<and> map nodeName (childNodes (buckets ! i))
                = map (\<lambda>p. maybeEscapePropertyName (fst p)) (take 100 (drop (i * 100) ?props))
            \<and> length (childNodes (buckets ! i))
                = (if i + 1 < (length (filter isDisplayed (ownProperties largeArray)) + 99) div 100
                   then 100
                   else length (filter isDisplayed (ownProperties largeArray))
                        - 100 * ((length (filter isDisplayed (ownProperties largeArray)) + 99) div 100 - 1))"
    by (elim exE conjE) (rule that; assumption)
  from pr have proto: "proto = JGrip (JString ''Array'') JUndefined"
    by (simp add: largeArray_prototype)
  from each [unfolded N] have b0: "nodePath (buckets ! 0) = ''root/bucket1''"
    and c0: "length (childNodes (buckets ! 0)) = 100"
    by (simp_all add: path showNat_values)
  from each [unfolded N] have "nodePath (buckets ! 3) = nodePath root @ ''/bucket'' @ showNat (3 + 1)
     \<and> length (childNodes (buckets ! 3)) = length (filter isDisplayed (ownProperties largeArray)) - 100 * (4 - 1)"
    by simp
  then have b3: "nodePath (buckets ! 3) = ''root/bucket4''"
    and c3: "length (childNodes (buckets ! 3)) = 31"
    by (simp_all add: path showNat_values largeArray_length)
  from nodes proto path blen N b0 b3 c0 c3 show ?thesis
    by (intro exI [of _ buckets]) simp
qed

lemma windowObject_sorted:
  "sortProperties (filter isDisplayed (ownProperties windowObject))
     = [(''bar'', valueDesc), (''location'', valueDesc)]"
  by code_simp

theorem makeNodesForProperties_default_bucket_witness:
  "makeNodesForProperties [''location''] windowObject windowRoot
     = [propertyNode ''root'' (''bar'', valueDesc),
        Node ''[default properties]'' ''root/##-default''
          (NodeContents [propertyNode ''root/##-default'' (''location'', valueDesc)])]
   \<and> makeNodesForProperties [''location''] windowObject root
       = [propertyNode ''root'' (''bar'', valueDesc), propertyNode ''root'' (''location'', valueDesc)]
   \<and> isDefault [''location''] ''location'' [windowRoot]
   \<and> \<not> isDefault [''location''] ''location'' [objectRoot]"
proof -
  have noarr: "\<not> (nodeIsArray (prototype windowObject)
                   \<and> bucketSize < length (sortProperties (filter isDisplayed (ownProperties windowObject))))"
    by (simp add: windowObject_def nodeIsArray_def)
  have win: "isWindow windowRoot" and nowin: "\<not> isWindow root" and noobj: "\<not> isWindow objectRoot"
    by code_simp+
  have paths: "nodePath windowRoot = ''root''" "nodePath root = ''root''"
    by (simp_all add: windowRoot_def root_def)
  have np: "prototype windowObject = None" by (simp add: windowObject_def)
  have 1: "makeNodesForProperties [''location''] windowObject windowRoot
     = [propertyNode ''root'' (''bar'', valueDesc),
        Node ''[default properties]'' ''root/##-default''
          (NodeContents [propertyNode ''root/##-default'' (''location'', valueDesc)])]"
    using makeNodesForProperties_default_bucket [OF noarr, where w = "[''location'']"
        and parent = windowRoot] win
    by (simp add: windowObject_sorted paths np)
  have 2: "makeNodesForProperties [''location''] windowObject root
       = [propertyNode ''root'' (''bar'', valueDesc), propertyNode ''root'' (''location'', valueDesc)]"
    using makeNodesForProperties_default_bucket [OF noarr, where w = "[''location'']"
        and parent = root] nowin
    by (simp add: windowObject_sorted paths np)
  have 3: "isDefault [''location''] ''location'' [windowRoot]"
    using makeNodesForProperties_default_bucket [OF noarr, where w = "[''location'']"
        and parent = windowRoot] win
    by simp
  have 4: "\<not> isDefault [''location''] ''location'' [objectRoot]"
    using makeNodesForProperties_default_bucket [OF noarr, where w = "[''location'']"
        and parent = objectRoot] noobj
    by simp
  from 1 2 3 4 show ?thesis by simp
qed

end
